theory Spec2Isabelle
  imports Main
begin

section \<open>Expiry date normalizer of update_product_expiry.py\<close>

text \<open>
  The theory embeds \<^verbatim>\<open>Command._calculate_new_expiry\<close> together with the module
  table \<^verbatim>\<open>MONTH_MAP\<close> and the class table \<^verbatim>\<open>EXP_PATTERNS\<close>.

  A Python \<^verbatim>\<open>str\<close> is a sequence of code points. Here a string is a \<open>char list\<close>
  and a \<open>char\<close> stands for the code point with the same number, so the model covers
  the strings whose code points are below 256. On that range
  \<^item> \<^verbatim>\<open>\d\<close> matches exactly the ten ASCII digits,
  \<^item> \<^verbatim>\<open>[A-Za-z]\<close>, also under \<^verbatim>\<open>re.IGNORECASE\<close>, matches exactly the 52 ASCII letters,
  \<^item> \<^verbatim>\<open>str.isspace\<close> holds of the code points 9 to 13, 28 to 32, 133 and 160.
\<close>

subsection \<open>Characters and the string methods the function calls\<close>

definition code :: "char \<Rightarrow> nat" where
  "code c = of_char c"

definition py_isspace :: "char \<Rightarrow> bool" where
  "py_isspace c = (code c \<in> {9, 10, 11, 12, 13, 28, 29, 30, 31, 32, 133, 160})"

definition is_digit :: "char \<Rightarrow> bool" where
  "is_digit c = (48 \<le> code c \<and> code c \<le> 57)"

definition is_upper :: "char \<Rightarrow> bool" where
  "is_upper c = (65 \<le> code c \<and> code c \<le> 90)"

definition is_lower :: "char \<Rightarrow> bool" where
  "is_lower c = (97 \<le> code c \<and> code c \<le> 122)"

definition is_alpha :: "char \<Rightarrow> bool" where
  "is_alpha c = (is_upper c \<or> is_lower c)"

text \<open>\<^verbatim>\<open>str.strip()\<close> without argument: whitespace is removed at both ends.\<close>

definition py_strip :: "string \<Rightarrow> string" where
  "py_strip s = rev (dropWhile py_isspace (rev (dropWhile py_isspace s)))"

text \<open>
  \<^verbatim>\<open>str.lower()\<close> and \<^verbatim>\<open>str.upper()\<close>. The function applies them to the text of
  the group \<^verbatim>\<open>month_text\<close> only, which holds ASCII letters; on those the two methods
  are the ASCII case maps, one character for one character. Other characters are left
  as they are.
\<close>

definition lower_char :: "char \<Rightarrow> char" where
  "lower_char c = (if is_upper c then char_of (code c + 32) else c)"

definition upper_char :: "char \<Rightarrow> char" where
  "upper_char c = (if is_lower c then char_of (code c - 32) else c)"

definition py_lower :: "string \<Rightarrow> string" where
  "py_lower s = map lower_char s"

definition py_upper :: "string \<Rightarrow> string" where
  "py_upper s = map upper_char s"

subsection \<open>Integers: \<^verbatim>\<open>int(str)\<close> and the format specs \<^verbatim>\<open>02d\<close>, \<^verbatim>\<open>04d\<close>\<close>

datatype py_error = TypeError | ValueError | IndexError

definition digit_val :: "char \<Rightarrow> int" where
  "digit_val c = int (code c) - 48"

text \<open>
  \<^verbatim>\<open>int(s)\<close> for a string: the decimal value of a non-empty string of digits. The
  function calls it on the text of the groups \<^verbatim>\<open>month\<close> and \<^verbatim>\<open>year\<close>, which the
  patterns restrict to digits; any other string is reported as \<open>ValueError\<close>, the
  exception the function catches around both calls.
\<close>

definition py_int :: "string \<Rightarrow> py_error + int" where
  "py_int s =
     (if s \<noteq> [] \<and> list_all is_digit s
      then Inr (foldl (\<lambda>a c. 10 * a + digit_val c) 0 s)
      else Inl ValueError)"

definition digit_chr :: "nat \<Rightarrow> char" where
  "digit_chr d = char_of (48 + d)"

fun nat_digits :: "nat \<Rightarrow> string" where
  "nat_digits n = (if n < 10 then [digit_chr n] else nat_digits (n div 10) @ [digit_chr (n mod 10)])"

declare nat_digits.simps [simp del]

text \<open>
  The conversion of an integer to decimal text (CPython 3.11 and later, and the security
  releases of the older versions) refuses a number with more digits than
  \<^verbatim>\<open>sys.get_int_max_str_digits()\<close>, which is 4300 unless the interpreter is told
  otherwise, and raises \<open>ValueError\<close>. The sign does not count.
\<close>

definition max_str_digits :: nat where
  "max_str_digits = 4300"

text \<open>
  The text of \<^verbatim>\<open>f"{n:0Wd}"\<close>: the decimal digits of \<open>|n|\<close>, filled with zeros on the
  left up to the width \<open>W\<close>; the minus sign of a negative number comes first and counts
  in the width. A number with more digits than the width is written in full.
\<close>

definition format_0d_text :: "nat \<Rightarrow> int \<Rightarrow> string" where
  "format_0d_text w n =
     (let body = nat_digits (nat \<bar>n\<bar>);
          sign = (if n < 0 then ''-'' else [])
      in sign @ replicate (w - length sign - length body) (CHR ''0'') @ body)"

text \<open>
  \<^verbatim>\<open>f"{n:0Wd}"\<close>: \<open>ValueError\<close> when \<open>|n|\<close> has more than 4300 decimal digits, the text
  otherwise.
\<close>

definition py_format_0d :: "nat \<Rightarrow> int \<Rightarrow> py_error + string" where
  "py_format_0d w n =
     (if max_str_digits < length (nat_digits (nat \<bar>n\<bar>)) then Inl ValueError
      else Inr (format_0d_text w n))"

subsection \<open>The month table\<close>

definition MONTH_MAP :: "string \<rightharpoonup> int" where
  "MONTH_MAP = map_of
     [(''jan'', 1), (''january'', 1),
      (''feb'', 2), (''february'', 2),
      (''mar'', 3), (''march'', 3),
      (''apr'', 4), (''april'', 4),
      (''may'', 5),
      (''jun'', 6), (''june'', 6),
      (''jul'', 7), (''july'', 7),
      (''aug'', 8), (''august'', 8),
      (''sep'', 9), (''sept'', 9), (''september'', 9),
      (''oct'', 10), (''october'', 10),
      (''nov'', 11), (''november'', 11),
      (''dec'', 12), (''december'', 12)]"

subsection \<open>The regular expressions of the pattern table\<close>

text \<open>
  Every expression of \<^verbatim>\<open>EXP_PATTERNS\<close> is \<^verbatim>\<open>^\<close>, then a sequence of named groups
  \<^verbatim>\<open>(?P<name>C{lo,hi})\<close> over a character class and of literal characters, then \<^verbatim>\<open>$\<close>.
  \<open>Group name C lo hi\<close> is such a group (\<open>hi = None\<close> for \<^verbatim>\<open>+\<close>, which is \<^verbatim>\<open>{1,}\<close>),
  \<open>Lit c\<close> a literal.
\<close>

datatype cclass = Alpha | Digit

datatype item = Group string cclass nat "nat option" | Lit char

fun in_class :: "cclass \<Rightarrow> char \<Rightarrow> bool" where
  "in_class Alpha c = is_alpha c"
| "in_class Digit c = is_digit c"

text \<open>
  A greedy quantifier takes as many characters as it can and gives them back one at a
  time while the rest of the expression fails: \<open>backtrack cont s lo k\<close> tries the
  lengths \<open>k, k - 1, \<dots>, lo\<close> for the group at the front of \<open>s\<close>.
\<close>

fun backtrack :: "(string \<Rightarrow> 'a option) \<Rightarrow> string \<Rightarrow> nat \<Rightarrow> nat \<Rightarrow> (string \<times> 'a) option" where
  "backtrack cont s lo k =
     (if k < lo then None
      else case cont (drop k s) of
             Some g \<Rightarrow> Some (take k s, g)
           | None \<Rightarrow> (if k = 0 then None else backtrack cont s lo (k - 1)))"

declare backtrack.simps [simp del]

text \<open>
  \<open>re_items\<close> matches the items from the start of the string and returns the text of
  the groups (\<^verbatim>\<open>match.groupdict()\<close>), \<open>None\<close> when there is no match. The empty item
  list is \<^verbatim>\<open>$\<close>, which matches at the end of the string and before a newline that
  ends the string.
\<close>

fun re_items :: "item list \<Rightarrow> string \<Rightarrow> (string \<times> string) list option" where
  "re_items [] s = (if s = [] \<or> s = [CHR 0x0A] then Some [] else None)"
| "re_items (Lit c # r) s =
     (case s of [] \<Rightarrow> None | x # xs \<Rightarrow> if x = c then re_items r xs else None)"
| "re_items (Group name cl lo hi # r) s =
     (let run = length (takeWhile (in_class cl) s);
          k = (case hi of None \<Rightarrow> run | Some h \<Rightarrow> min run h)
      in map_option (\<lambda>(t, g). (name, t) # g) (backtrack (re_items r) s lo k))"

definition re_match :: "item list \<Rightarrow> string \<Rightarrow> (string \<times> string) list option" where
  "re_match re s = re_items re s"

subsection \<open>The pattern table\<close>

datatype month_type = Text | Numeric

record pattern =
  regex :: "item list"
  year_length :: nat
  separator :: string
  month_first :: bool
  month_type :: month_type

definition EXP_PATTERNS :: "pattern list" where
  "EXP_PATTERNS =
   [\<lparr>regex = [Group ''month_text'' Alpha 1 None, Lit (CHR ''-''), Group ''year'' Digit 2 (Some 2)],
     year_length = 2, separator = ''-'', month_first = True, month_type = Text\<rparr>,
    \<lparr>regex = [Group ''month_text'' Alpha 1 None, Lit (CHR ''-''), Group ''year'' Digit 4 (Some 4)],
     year_length = 4, separator = ''-'', month_first = True, month_type = Text\<rparr>,
    \<lparr>regex = [Group ''month_text'' Alpha 1 None, Lit (CHR ''/''), Group ''year'' Digit 2 (Some 2)],
     year_length = 2, separator = ''/'', month_first = True, month_type = Text\<rparr>,
    \<lparr>regex = [Group ''month_text'' Alpha 1 None, Lit (CHR ''/''), Group ''year'' Digit 4 (Some 4)],
     year_length = 4, separator = ''/'', month_first = True, month_type = Text\<rparr>,
    \<lparr>regex = [Group ''month'' Digit 1 (Some 2), Lit (CHR ''/''), Group ''year'' Digit 2 (Some 2)],
     year_length = 2, separator = ''/'', month_first = True, month_type = Numeric\<rparr>,
    \<lparr>regex = [Group ''month'' Digit 1 (Some 2), Lit (CHR ''-''), Group ''year'' Digit 2 (Some 2)],
     year_length = 2, separator = ''-'', month_first = True, month_type = Numeric\<rparr>,
    \<lparr>regex = [Group ''month'' Digit 1 (Some 2), Lit (CHR ''/''), Group ''year'' Digit 4 (Some 4)],
     year_length = 4, separator = ''/'', month_first = True, month_type = Numeric\<rparr>,
    \<lparr>regex = [Group ''month'' Digit 1 (Some 2), Lit (CHR ''-''), Group ''year'' Digit 4 (Some 4)],
     year_length = 4, separator = ''-'', month_first = True, month_type = Numeric\<rparr>,
    \<lparr>regex = [Group ''year'' Digit 4 (Some 4), Lit (CHR ''/''), Group ''month'' Digit 1 (Some 2)],
     year_length = 4, separator = ''/'', month_first = False, month_type = Numeric\<rparr>,
    \<lparr>regex = [Group ''year'' Digit 4 (Some 4), Lit (CHR ''-''), Group ''month'' Digit 1 (Some 2)],
     year_length = 4, separator = ''-'', month_first = False, month_type = Numeric\<rparr>,
    \<lparr>regex = [Group ''month'' Digit 2 (Some 2), Group ''year'' Digit 2 (Some 2)],
     year_length = 2, separator = [], month_first = True, month_type = Numeric\<rparr>,
    \<lparr>regex = [Group ''month'' Digit 2 (Some 2), Group ''year'' Digit 4 (Some 4)],
     year_length = 4, separator = [], month_first = True, month_type = Numeric\<rparr>]"

subsection \<open>The body of the loop\<close>

text \<open>The local variables a pattern has set when the loop body reaches the arithmetic.\<close>

record fields =
  month :: int
  original_month_text :: "string option"
  year :: int

text \<open>
  The conversion of the year, guarded by \<^verbatim>\<open>except (TypeError, ValueError): continue\<close>;
  \<^verbatim>\<open>int(None)\<close> raises \<open>TypeError\<close>. \<open>None\<close> is \<^verbatim>\<open>continue\<close>.
\<close>

definition convert_year :: "string option \<Rightarrow> int option" where
  "convert_year year_str =
     (case (case year_str of None \<Rightarrow> Inl TypeError | Some ys \<Rightarrow> py_int ys) of
        Inl e \<Rightarrow> None
      | Inr y \<Rightarrow> Some y)"

text \<open>
  The first half of the loop body: the match, the month and the year of one pattern.
  \<open>None\<close> is \<^verbatim>\<open>continue\<close>.
\<close>

definition extract_fields :: "pattern \<Rightarrow> string \<Rightarrow> fields option" where
  "extract_fields p exp_value =
     (case re_match (regex p) exp_value of
        None \<Rightarrow> None
      | Some groupdict \<Rightarrow>
          let year_str = map_of groupdict ''year'' in
          if month_type p = Text then
            (case map_of groupdict ''month_text'' of
               None \<Rightarrow> None
             | Some month_text \<Rightarrow>
                 if month_text = [] then None
                 else (case MONTH_MAP (py_lower month_text) of
                         None \<Rightarrow> None
                       | Some m \<Rightarrow>
                           map_option
                             (\<lambda>y. \<lparr>month = m, original_month_text = Some month_text, year = y\<rparr>)
                             (convert_year year_str)))
          else
            (case map_of groupdict ''month'' of
               None \<Rightarrow> None
             | Some month_str \<Rightarrow>
                 if month_str = [] then None
                 else (case py_int month_str of
                         Inl e \<Rightarrow> None
                       | Inr m \<Rightarrow>
                           if m < 1 \<or> m > 12 then None
                           else map_option
                                  (\<lambda>y. \<lparr>month = m, original_month_text = None, year = y\<rparr>)
                                  (convert_year year_str))))"

text \<open>
  The formatted year: modulo 100 for a two-digit year. The f-string of a four-digit
  year is not inside a \<^verbatim>\<open>try\<close>: its \<open>ValueError\<close> leaves the function.
\<close>

definition formatted_year :: "pattern \<Rightarrow> fields \<Rightarrow> int \<Rightarrow> py_error + string" where
  "formatted_year p f years_to_add =
     (let new_year = year f + years_to_add
      in if year_length p = 2 then py_format_0d 2 (new_year mod 100)
         else py_format_0d 4 new_year)"

text \<open>
  The formatted month. \<^verbatim>\<open>original_month_text[0]\<close> raises \<open>TypeError\<close> on \<^verbatim>\<open>None\<close>
  and \<open>IndexError\<close> on the empty string; neither is caught.
\<close>

definition formatted_month :: "pattern \<Rightarrow> fields \<Rightarrow> py_error + string" where
  "formatted_month p f =
     (if month_type p = Text then
        (case original_month_text f of
           None \<Rightarrow> Inl TypeError
         | Some [] \<Rightarrow> Inl IndexError
         | Some (c # cs) \<Rightarrow> Inr (py_upper [c] @ py_lower cs))
      else py_format_0d 2 (month f))"

text \<open>
  The second half of the loop body: the arithmetic and the \<^verbatim>\<open>return\<close>. The year is
  formatted first, the month after it.
\<close>

definition format_expiry :: "pattern \<Rightarrow> fields \<Rightarrow> int \<Rightarrow> py_error + string" where
  "format_expiry p f years_to_add =
     (case formatted_year p f years_to_add of
        Inl e \<Rightarrow> Inl e
      | Inr fy \<Rightarrow>
          (case formatted_month p f of
             Inl e \<Rightarrow> Inl e
           | Inr fm \<Rightarrow>
               if separator p \<noteq> [] then
                 (if month_first p then Inr (fm @ separator p @ fy)
                  else Inr (fy @ separator p @ fm))
               else
                 (if month_first p then Inr (fm @ fy) else Inr (fy @ fm))))"

subsection \<open>The loop and the function\<close>

text \<open>
  \<^verbatim>\<open>for pattern in self.EXP_PATTERNS\<close>: a pattern that does not apply is skipped, the
  first that applies returns; after the loop the function returns \<^verbatim>\<open>None\<close>. \<open>Inl\<close> is
  an exception that leaves the function.
\<close>

fun pattern_loop :: "pattern list \<Rightarrow> string \<Rightarrow> int \<Rightarrow> py_error + string option" where
  "pattern_loop [] exp_value years_to_add = Inr None"
| "pattern_loop (p # ps) exp_value years_to_add =
     (case extract_fields p exp_value of
        None \<Rightarrow> pattern_loop ps exp_value years_to_add
      | Some f \<Rightarrow>
          (case format_expiry p f years_to_add of
             Inl e \<Rightarrow> Inl e
           | Inr r \<Rightarrow> Inr (Some r)))"

definition calculate_new_expiry :: "string \<Rightarrow> int \<Rightarrow> py_error + string option" where
  "calculate_new_expiry exp_value years_to_add =
     (if exp_value = [] then Inr None
      else let stripped = py_strip exp_value
           in if stripped = [] then Inr None
              else pattern_loop EXP_PATTERNS stripped years_to_add)"

subsection \<open>The matcher and the rule list of the specification\<close>

text \<open>
  The specification names the first half of the function \<open>classify\<close>: the string
  is trimmed, the empty string is no match, and the result is the first rule of the
  list that applies, with the fields it has read.
\<close>

fun first_match :: "pattern list \<Rightarrow> string \<Rightarrow> (pattern \<times> fields) option" where
  "first_match [] s = None"
| "first_match (p # ps) s =
     (case extract_fields p s of None \<Rightarrow> first_match ps s | Some f \<Rightarrow> Some (p, f))"

definition classify :: "string \<Rightarrow> (pattern \<times> fields) option" where
  "classify raw = (if py_strip raw = [] then None else first_match EXP_PATTERNS (py_strip raw))"

text \<open>The two fields in the order of the rule, with its separator between them.\<close>

definition assemble :: "pattern \<Rightarrow> string \<Rightarrow> string \<Rightarrow> string" where
  "assemble p m y = (if month_first p then m @ separator p @ y else y @ separator p @ m)"

text \<open>
  The rule list as section 6 of the specification writes it, in its order: the month
  representation, the separator, the year width and whether the month comes first.
\<close>

definition section6_rules :: "(month_type \<times> string \<times> nat \<times> bool) list" where
  "section6_rules =
     [(Text, ''-'', 2, True), (Text, ''-'', 4, True),
      (Text, ''/'', 2, True), (Text, ''/'', 4, True),
      (Numeric, ''/'', 2, True), (Numeric, ''-'', 2, True),
      (Numeric, ''/'', 4, True), (Numeric, ''-'', 4, True),
      (Numeric, ''/'', 4, False), (Numeric, ''-'', 4, False),
      (Numeric, [], 2, True), (Numeric, [], 4, True)]"

definition rule_shape :: "pattern \<Rightarrow> month_type \<times> string \<times> nat \<times> bool" where
  "rule_shape p = (month_type p, separator p, year_length p, month_first p)"

text \<open>
  The grammar of a rule of section 6: a textual month is one or more letters, a numeric
  month one or two digits before or after a separator and two digits without one, the
  year has as many digits as its width.
\<close>

fun section6_regex :: "month_type \<times> string \<times> nat \<times> bool \<Rightarrow> item list" where
  "section6_regex (mt, sep, w, mf) =
     (let m = (case mt of
                 Text \<Rightarrow> Group ''month_text'' Alpha 1 None
               | Numeric \<Rightarrow> if sep = [] then Group ''month'' Digit 2 (Some 2)
                            else Group ''month'' Digit 1 (Some 2));
          y = Group ''year'' Digit w (Some w)
      in if mf then m # map Lit sep @ [y] else y # map Lit sep @ [m])"

text \<open>The upper bound of a quantifier: \<open>None\<close> is no bound.\<close>

definition within :: "nat option \<Rightarrow> nat \<Rightarrow> bool" where
  "within hi n = (case hi of None \<Rightarrow> True | Some h \<Rightarrow> n \<le> h)"

text \<open>
  What a rule has read when its fields are \<open>f\<close>, the text of its month group is \<open>ms\<close>
  and the text of its year group is \<open>ys\<close>: the year has the digits of the rule's width
  and the value \<open>year f\<close>, the month is from 1 to 12, a numeric month is one or two digits
  with the value \<open>month f\<close>, a textual month is letters that the table maps to
  \<open>month f\<close>.
\<close>

definition reads_fields :: "pattern \<Rightarrow> fields \<Rightarrow> string \<Rightarrow> string \<Rightarrow> bool" where
  "reads_fields p f ms ys =
     (length ys = year_length p \<and> list_all is_digit ys \<and> py_int ys = Inr (year f) \<and>
      ms \<noteq> [] \<and> 1 \<le> month f \<and> month f \<le> 12 \<and>
      (case month_type p of
         Numeric \<Rightarrow> list_all is_digit ms \<and> length ms \<le> 2 \<and> py_int ms = Inr (month f) \<and>
                    original_month_text f = None
       | Text \<Rightarrow> list_all is_alpha ms \<and> original_month_text f = Some ms \<and>
                 MONTH_MAP (py_lower ms) = Some (month f)))"

text \<open>
  A number written "zero-padded to \<open>w\<close> digits", as the specification puts it: the
  text \<open>t\<close> is digits only and reads back as \<open>n\<close>; it has exactly \<open>w\<close> digits when \<open>n\<close>
  fits in them, and no leading zero when it does not.
\<close>

definition zero_padded :: "nat \<Rightarrow> int \<Rightarrow> string \<Rightarrow> bool" where
  "zero_padded w n t =
     (t \<noteq> [] \<and> list_all is_digit t \<and> py_int t = Inr n \<and>
      (if n < 10 ^ w then length t = w else hd t \<noteq> CHR ''0''))"

text \<open>
  The same for the format spec \<^verbatim>\<open>0Wd\<close> on any integer: a negative number is a minus
  sign followed by its absolute value zero-padded to one digit less.
\<close>

definition format_0d_of :: "nat \<Rightarrow> int \<Rightarrow> string \<Rightarrow> bool" where
  "format_0d_of w n t =
     (if n < 0 then (case t of [] \<Rightarrow> False | c # ds \<Rightarrow> c = CHR ''-'' \<and> zero_padded (w - 1) (- n) ds)
      else zero_padded w n t)"

text \<open>The variable \<^verbatim>\<open>new_year\<close> at the point where it is formatted.\<close>

definition new_year :: "pattern \<Rightarrow> fields \<Rightarrow> int \<Rightarrow> int" where
  "new_year p f years_to_add =
     (if year_length p = 2 then (year f + years_to_add) mod 100 else year f + years_to_add)"

text \<open>
  The fields that belong to the output: the month of the input, the month text as it
  was written out, and the new year.
\<close>

definition output_fields :: "pattern \<Rightarrow> fields \<Rightarrow> int \<Rightarrow> string \<Rightarrow> fields" where
  "output_fields p f years_to_add fm =
     \<lparr>month = month f,
      original_month_text = (case month_type p of Text \<Rightarrow> Some fm | Numeric \<Rightarrow> None),
      year = new_year p f years_to_add\<rparr>"

text \<open>The name of the group that holds the month in the expression of a rule.\<close>

definition month_group :: "pattern \<Rightarrow> string" where
  "month_group p = (if month_type p = Text then ''month_text'' else ''month'')"

text \<open>
  An output that has the format shape of the input and differs from it in the year
  only: both strings match the expression of the rule, which fixes the separator, the
  order of the fields and the number of year digits, and the month group has the same
  text in both.
\<close>

definition mirrors_input :: "pattern \<Rightarrow> string \<Rightarrow> string \<Rightarrow> bool" where
  "mirrors_input p x y =
     (case (re_match (regex p) x, re_match (regex p) y) of
        (Some gx, Some gy) \<Rightarrow> map_of gx (month_group p) = map_of gy (month_group p)
      | _ \<Rightarrow> False)"

section \<open>Numbers and their decimal text\<close>

lemma code_char_of [simp]: "n < 256 \<Longrightarrow> code (char_of n) = n"
  by (simp add: code_def)

lemma code_lt: "code c < 256"
  by (simp add: code_def)

lemma is_digit_digit_chr [simp]: "d < 10 \<Longrightarrow> is_digit (digit_chr d)"
  by (simp add: is_digit_def digit_chr_def)

lemma digit_val_digit_chr [simp]: "d < 10 \<Longrightarrow> digit_val (digit_chr d) = int d"
  by (simp add: digit_val_def digit_chr_def)

lemma digit_val_zero [simp]: "digit_val (CHR ''0'') = 0"
  by (simp add: digit_val_def code_def)

lemma is_digit_zero [simp]: "is_digit (CHR ''0'')"
  by (simp add: is_digit_def code_def)

lemma nat_digits_not_Nil [simp]: "nat_digits n \<noteq> []"
  by (subst nat_digits.simps) simp

lemma nat_digits_all_digits [simp]: "list_all is_digit (nat_digits n)"
proof (induction n rule: nat_digits.induct)
  case (1 n)
  then show ?case by (subst nat_digits.simps) simp
qed

lemma nat_digits_value [simp]:
  "foldl (\<lambda>a c. 10 * a + digit_val c) 0 (nat_digits n) = int n"
proof (induction n rule: nat_digits.induct)
  case (1 n)
  show ?case
  proof (cases "n < 10")
    case True
    then show ?thesis by (subst nat_digits.simps) simp
  next
    case False
    with 1 have "foldl (\<lambda>a c. 10 * a + digit_val c) 0 (nat_digits (n div 10)) = int (n div 10)"
      by simp
    with False show ?thesis
      by (subst nat_digits.simps) (simp add: zdiv_int zmod_int)
  qed
qed

lemma nat_digits_length:
  "0 < w \<Longrightarrow> n < 10 ^ w \<Longrightarrow> length (nat_digits n) \<le> w"
proof (induction n arbitrary: w rule: nat_digits.induct)
  case (1 n)
  show ?case
  proof (cases "n < 10")
    case True
    with 1(2) show ?thesis by (subst nat_digits.simps) simp
  next
    case False
    from False 1(2) 1(3) have w: "1 < w" by (cases "w = 1") auto
    then obtain v where v: "w = Suc v" "0 < v" by (cases w) auto
    with 1(3) have "n div 10 < 10 ^ v"
      by (simp add: less_mult_imp_div_less mult.commute)
    with 1(1) [OF False v(2)] have "length (nat_digits (n div 10)) \<le> v" by simp
    with False v show ?thesis by (subst nat_digits.simps) simp
  qed
qed

lemma foldl_leading_zeros [simp]:
  "foldl (\<lambda>a c. 10 * a + digit_val c) 0 (replicate j (CHR ''0'')) = 0"
  by (induction j) simp_all

lemma list_all_replicate [simp]: "list_all P (replicate j x) = (j = 0 \<or> P x)"
  by (induction j) auto

lemma format_0d_text_nonneg:
  "0 \<le> n \<Longrightarrow> format_0d_text w n = replicate (w - length (nat_digits (nat n))) (CHR ''0'') @ nat_digits (nat n)"
  by (simp add: format_0d_text_def Let_def)

lemma format_0d_text_digits:
  "0 \<le> n \<Longrightarrow> list_all is_digit (format_0d_text w n)"
  by (simp add: format_0d_text_nonneg)

lemma format_0d_text_not_Nil [simp]: "format_0d_text w n \<noteq> []"
  by (simp add: format_0d_text_def Let_def)

lemma py_int_format_0d_text:
  "0 \<le> n \<Longrightarrow> py_int (format_0d_text w n) = Inr n"
  using format_0d_text_digits [of n w]
  by (simp add: py_int_def) (simp add: format_0d_text_nonneg)

lemma length_format_0d_text:
  "0 \<le> n \<Longrightarrow> n < 10 ^ w \<Longrightarrow> 0 < w \<Longrightarrow> length (format_0d_text w n) = w"
proof -
  assume n: "0 \<le> n" "n < 10 ^ w" and w: "0 < w"
  then have "nat n < 10 ^ w"
    by (metis nat_less_iff of_nat_numeral of_nat_power)
  from nat_digits_length [OF w this] n(1) show ?thesis
    by (simp add: format_0d_text_nonneg)
qed

lemma length_format_0d_text_ge: "w \<le> length (format_0d_text w n)"
  by (simp add: format_0d_text_def Let_def)

lemma format_0d_text_neg:
  "n < 0 \<Longrightarrow> format_0d_text w n = CHR ''-'' # format_0d_text (w - 1) (- n)"
  by (simp add: format_0d_text_def Let_def)

lemma nat_digits_long: "10 ^ w \<le> n \<Longrightarrow> w < length (nat_digits n)"
proof (induction n arbitrary: w rule: nat_digits.induct)
  case (1 n)
  show ?case
  proof (cases w)
    case 0
    then show ?thesis by (cases "nat_digits n") simp_all
  next
    case (Suc v)
    with 1(2) have ten: "10 * 10 ^ v \<le> n" by simp
    moreover have "1 \<le> (10::nat) ^ v" by simp
    ultimately have big: "\<not> n < 10" by linarith
    from ten have "10 ^ v \<le> n div 10" by (simp add: less_eq_div_iff_mult_less_eq mult.commute)
    with 1(1) [OF big] have "v < length (nat_digits (n div 10))" by simp
    with big Suc show ?thesis by (subst nat_digits.simps) simp
  qed
qed

lemma nat_digits_no_leading_zero: "0 < n \<Longrightarrow> hd (nat_digits n) \<noteq> CHR ''0''"
proof (induction n rule: nat_digits.induct)
  case (1 n)
  show ?case
  proof (cases "n < 10")
    case True
    with 1(2) show ?thesis
      by (subst nat_digits.simps) (simp add: digit_chr_def char_of_eq_iff take_bit_eq_mod)
  next
    case False
    then have "0 < n div 10" by (simp add: div_greater_zero_iff)
    with 1(1) [OF False] have "hd (nat_digits (n div 10)) \<noteq> CHR ''0''" by simp
    with False show ?thesis by (subst nat_digits.simps) simp
  qed
qed

lemma max_str_digits_pos: "0 < max_str_digits" "4 \<le> max_str_digits"
  by (simp_all add: max_str_digits_def)

lemma digits_within_limit:
  "max_str_digits < length (nat_digits (nat \<bar>n\<bar>)) \<longleftrightarrow> 10 ^ max_str_digits \<le> \<bar>n\<bar>"
proof
  assume "10 ^ max_str_digits \<le> \<bar>n\<bar>"
  then have "10 ^ max_str_digits \<le> nat \<bar>n\<bar>"
    by (simp add: le_nat_iff)
  then show "max_str_digits < length (nat_digits (nat \<bar>n\<bar>))" by (rule nat_digits_long)
next
  assume long: "max_str_digits < length (nat_digits (nat \<bar>n\<bar>))"
  show "10 ^ max_str_digits \<le> \<bar>n\<bar>"
  proof (rule ccontr)
    assume "\<not> 10 ^ max_str_digits \<le> \<bar>n\<bar>"
    then have "nat \<bar>n\<bar> < 10 ^ max_str_digits"
      by (simp add: nat_less_iff)
    from nat_digits_length [OF max_str_digits_pos(1) this] long show False by simp
  qed
qed

lemma py_format_0d_cases:
  "py_format_0d w n =
     (if 10 ^ max_str_digits \<le> \<bar>n\<bar> then Inl ValueError else Inr (format_0d_text w n))"
  by (simp add: py_format_0d_def digits_within_limit)

lemma small_within_limit: "\<bar>n::int\<bar> < 10000 \<Longrightarrow> \<not> 10 ^ max_str_digits \<le> \<bar>n\<bar>"
proof -
  have "(10::int) ^ 4 \<le> 10 ^ max_str_digits"
    by (rule power_increasing) (simp_all add: max_str_digits_pos)
  then show "\<bar>n\<bar> < 10000 \<Longrightarrow> \<not> 10 ^ max_str_digits \<le> \<bar>n\<bar>" by simp
qed

lemma small_below_limit: "\<bar>n::int\<bar> < 10000 \<Longrightarrow> \<bar>n\<bar> < 10 ^ max_str_digits"
  using small_within_limit [of n] by simp

lemma py_format_0d_small:
  "\<bar>n\<bar> < 10000 \<Longrightarrow> py_format_0d w n = Inr (format_0d_text w n)"
  by (simp add: py_format_0d_cases small_within_limit)

lemma zero_padded_format:
  assumes "0 \<le> n" and "0 < w"
  shows "zero_padded w n (format_0d_text w n)"
proof (cases "n < 10 ^ w")
  case True
  with assms show ?thesis
    by (simp add: zero_padded_def format_0d_text_digits py_int_format_0d_text
          length_format_0d_text)
next
  case False
  then have "10 ^ w \<le> nat n" by (simp add: le_nat_iff)
  then have "w < length (nat_digits (nat n))" by (rule nat_digits_long)
  with assms have body: "format_0d_text w n = nat_digits (nat n)"
    by (simp add: format_0d_text_nonneg)
  have "(0::int) < 10 ^ w" by simp
  with False have "0 < n" by linarith
  then have "0 < nat n" by simp
  then have "hd (nat_digits (nat n)) \<noteq> CHR ''0''" by (rule nat_digits_no_leading_zero)
  with assms False body show ?thesis
    by (simp add: zero_padded_def py_int_format_0d_text [of n w, unfolded body]
          format_0d_text_digits [of n w, unfolded body])
qed

lemma format_0d_of_format:
  assumes "1 < w"
  shows "format_0d_of w n (format_0d_text w n)"
proof (cases "n < 0")
  case True
  with assms zero_padded_format [of "- n" "w - 1"] show ?thesis
    by (simp add: format_0d_of_def format_0d_text_neg)
next
  case False
  with assms zero_padded_format [of n w] show ?thesis
    by (simp add: format_0d_of_def)
qed

section \<open>Strings and the regular expressions\<close>

subsection \<open>Characters\<close>

lemma code_minus [simp]: "code (CHR ''-'') = 45"
  by (simp add: code_def)

lemma code_slash [simp]: "code (CHR ''/'') = 47"
  by (simp add: code_def)

lemma code_newline [simp]: "code (CHR 0x0A) = 10"
  by (simp add: code_def)

lemma digit_not_alpha: "is_digit c \<Longrightarrow> \<not> is_alpha c"
  by (auto simp: is_digit_def is_alpha_def is_upper_def is_lower_def)

lemma alpha_not_digit: "is_alpha c \<Longrightarrow> \<not> is_digit c"
  by (auto simp: is_digit_def is_alpha_def is_upper_def is_lower_def)

lemma digit_not_space: "is_digit c \<Longrightarrow> \<not> py_isspace c"
  by (auto simp: is_digit_def py_isspace_def)

lemma alpha_not_space: "is_alpha c \<Longrightarrow> \<not> py_isspace c"
  by (auto simp: is_alpha_def is_upper_def is_lower_def py_isspace_def)

lemma separators_plain [simp]:
  "\<not> is_alpha (CHR ''-'')" "\<not> is_digit (CHR ''-'')" "\<not> py_isspace (CHR ''-'')"
  "\<not> is_alpha (CHR ''/'')" "\<not> is_digit (CHR ''/'')" "\<not> py_isspace (CHR ''/'')"
  by (simp_all add: is_alpha_def is_upper_def is_lower_def is_digit_def py_isspace_def)

lemma newline_plain [simp]:
  "\<not> is_alpha (CHR 0x0A)" "\<not> is_digit (CHR 0x0A)" "py_isspace (CHR 0x0A)"
  by (simp_all add: is_alpha_def is_upper_def is_lower_def is_digit_def py_isspace_def)

lemma newline_not_in_class [simp]: "\<not> in_class cl (CHR 0x0A)"
  by (cases cl) simp_all

subsection \<open>Runs of a character class\<close>

lemma takeWhile_all [simp]: "list_all P xs \<Longrightarrow> takeWhile P (xs @ ys) = xs @ takeWhile P ys"
  by (induction xs) simp_all

lemma dropWhile_all [simp]: "list_all P xs \<Longrightarrow> dropWhile P (xs @ ys) = dropWhile P ys"
  by (induction xs) simp_all

lemma list_all_takeWhile [simp]: "list_all P (takeWhile P xs)"
  by (induction xs) simp_all

lemma drop_in_run:
  assumes "j < length (takeWhile P s)"
  shows "\<exists>x xs. drop j s = x # xs \<and> P x"
proof -
  have s: "s = takeWhile P s @ dropWhile P s" by simp
  from assms obtain x xs where d: "drop j (takeWhile P s) = x # xs"
    by (cases "drop j (takeWhile P s)") auto
  then have "x \<in> set (takeWhile P s)" by (metis in_set_dropD list.set_intros(1))
  then have "P x" by (rule set_takeWhileD [THEN conjunct2])
  moreover have "drop j s = drop j (takeWhile P s @ dropWhile P s)" by simp
  with assms d have "drop j s = x # xs @ dropWhile P s"
    by (simp del: takeWhile_dropWhile_id)
  ultimately show ?thesis by blast
qed

lemma take_run [simp]: "take (length (takeWhile P s)) s = takeWhile P s"
  by (induction s) simp_all

lemma drop_run [simp]: "drop (length (takeWhile P s)) s = dropWhile P s"
  by (induction s) simp_all

subsection \<open>Greedy groups\<close>

lemma backtrack_miss:
  assumes "\<And>j. j \<le> k \<Longrightarrow> cont (drop j s) = None"
  shows "backtrack cont s lo k = None"
  using assms
proof (induction k)
  case 0
  then show ?case by (subst backtrack.simps) simp
next
  case (Suc k)
  then show ?case by (subst backtrack.simps) simp
qed

lemma backtrack_top:
  assumes "\<And>j. j < k \<Longrightarrow> cont (drop j s) = None"
  shows "backtrack cont s lo k =
           (if k < lo then None else map_option (Pair (take k s)) (cont (drop k s)))"
proof (cases k)
  case 0
  then show ?thesis by (subst backtrack.simps) (simp split: option.splits)
next
  case (Suc k')
  with assms have "backtrack cont s lo k' = None"
    by (intro backtrack_miss) simp
  with Suc show ?thesis by (subst backtrack.simps) (simp split: option.splits)
qed

lemma within_simps [simp]: "within None n" "within (Some h) n = (n \<le> h)"
  by (simp_all add: within_def)

lemma group_deterministic:
  assumes stop: "\<And>x xs. in_class cl x \<Longrightarrow> re_items r (x # xs) = None"
  shows "re_items (Group name cl lo hi # r) s =
           (if lo \<le> length (takeWhile (in_class cl) s) \<and> within hi (length (takeWhile (in_class cl) s))
            then map_option (\<lambda>g. (name, takeWhile (in_class cl) s) # g)
                   (re_items r (dropWhile (in_class cl) s))
            else None)"
proof -
  let ?run = "length (takeWhile (in_class cl) s)"
  have inside: "re_items r (drop j s) = None" if "j < ?run" for j
    using drop_in_run [OF that] stop by auto
  show ?thesis
  proof (cases "within hi ?run")
    case True
    then have k: "(case hi of None \<Rightarrow> ?run | Some h \<Rightarrow> min ?run h) = ?run"
      by (simp add: within_def split: option.splits)
    have "backtrack (re_items r) s lo ?run =
            (if ?run < lo then None
             else map_option (Pair (take ?run s)) (re_items r (drop ?run s)))"
      by (rule backtrack_top) (rule inside)
    with True k show ?thesis
      by (simp add: Let_def option.map_comp comp_def)
  next
    case False
    then obtain h where h: "hi = Some h" "h < ?run"
      by (cases hi) auto
    have "backtrack (re_items r) s lo h = None"
      by (rule backtrack_miss) (use h in \<open>simp add: inside\<close>)
    with False h show ?thesis by (simp add: Let_def)
  qed
qed

lemma group_then_literal:
  assumes "\<not> in_class cl c"
  shows "re_items (Group name cl lo hi # Lit c # r) s =
           (if lo \<le> length (takeWhile (in_class cl) s) \<and> within hi (length (takeWhile (in_class cl) s))
            then map_option (\<lambda>g. (name, takeWhile (in_class cl) s) # g)
                   (re_items (Lit c # r) (dropWhile (in_class cl) s))
            else None)"
  by (rule group_deterministic) (use assms in auto)

lemma group_at_end:
  "re_items [Group name cl lo hi] s =
           (if lo \<le> length (takeWhile (in_class cl) s) \<and> within hi (length (takeWhile (in_class cl) s))
            then map_option (\<lambda>g. (name, takeWhile (in_class cl) s) # g)
                   (re_items [] (dropWhile (in_class cl) s))
            else None)"
  by (rule group_deterministic) auto

lemma group_fixed:
  "re_items (Group name cl m (Some m) # r) s =
     (if m \<le> length (takeWhile (in_class cl) s)
      then map_option (\<lambda>g. (name, take m s) # g) (re_items r (drop m s))
      else None)"
proof -
  have "backtrack (re_items r) s m m = map_option (Pair (take m s)) (re_items r (drop m s))"
    by (subst backtrack.simps, subst backtrack.simps) (simp split: option.splits)
  moreover have "backtrack (re_items r) s m k = None" if "k < m" for k
    using that by (subst backtrack.simps) simp
  ultimately show ?thesis
    by (simp add: Let_def min_def option.map_comp comp_def)
qed

declare re_items.simps(3) [simp del]

lemma takeWhile_all_id: "list_all P xs \<Longrightarrow> takeWhile P xs = xs"
  by (induction xs) simp_all

lemma dropWhile_all_Nil: "list_all P xs \<Longrightarrow> dropWhile P xs = []"
  by (induction xs) simp_all

lemma list_all_take: "n \<le> length (takeWhile P s) \<Longrightarrow> list_all P (take n s)"
proof (induction s arbitrary: n)
  case Nil
  then show ?case by simp
next
  case (Cons x s)
  then show ?case by (cases n) (auto split: if_splits)
qed

subsection \<open>The two shapes of the expressions\<close>

lemma sep_shape_sound:
  assumes "re_items [Group n1 cl1 lo1 hi1, Lit c, Group n2 cl2 lo2 hi2] s = Some g"
    and "\<not> in_class cl1 c"
  shows "\<exists>t u e. s = t @ c # u @ e \<and> (e = [] \<or> e = [CHR 0x0A]) \<and> g = [(n1, t), (n2, u)] \<and>
           list_all (in_class cl1) t \<and> list_all (in_class cl2) u \<and>
           lo1 \<le> length t \<and> within hi1 (length t) \<and> lo2 \<le> length u \<and> within hi2 (length u)"
proof -
  let ?t = "takeWhile (in_class cl1) s" and ?r = "dropWhile (in_class cl1) s"
  from assms have t: "lo1 \<le> length ?t" "within hi1 (length ?t)"
    and r: "re_items [Lit c, Group n2 cl2 lo2 hi2] ?r \<noteq> None"
    by (auto simp: group_then_literal split: if_splits)
  from r obtain r' where r': "?r = c # r'"
    by (cases ?r) (auto split: if_splits)
  let ?u = "takeWhile (in_class cl2) r'" and ?e = "dropWhile (in_class cl2) r'"
  from assms t r' have u: "lo2 \<le> length ?u" "within hi2 (length ?u)" "?e = [] \<or> ?e = [CHR 0x0A]"
    and g: "g = [(n1, ?t), (n2, ?u)]"
    by (auto simp: group_then_literal group_at_end split: if_splits)
  have "s = ?t @ ?r" by simp
  also have "\<dots> = ?t @ c # ?u @ ?e" by (simp add: r')
  finally have "s = ?t @ c # ?u @ ?e" .
  with t u g show ?thesis
    by (intro exI [of _ ?t] exI [of _ ?u] exI [of _ ?e]) simp
qed

lemma nosep_shape_sound:
  assumes "re_items [Group n1 cl1 m (Some m), Group n2 cl2 lo2 hi2] s = Some g"
  shows "\<exists>t u e. s = t @ u @ e \<and> (e = [] \<or> e = [CHR 0x0A]) \<and> g = [(n1, t), (n2, u)] \<and>
           list_all (in_class cl1) t \<and> list_all (in_class cl2) u \<and>
           length t = m \<and> lo2 \<le> length u \<and> within hi2 (length u)"
proof -
  let ?t = "take m s" and ?r = "drop m s"
  from assms have m: "m \<le> length (takeWhile (in_class cl1) s)"
    by (auto simp: group_fixed split: if_splits)
  then have t: "list_all (in_class cl1) ?t" by (rule list_all_take)
  from m have "m \<le> length s"
    by (meson le_trans length_takeWhile_le)
  then have lt: "length ?t = m" by simp
  let ?u = "takeWhile (in_class cl2) ?r" and ?e = "dropWhile (in_class cl2) ?r"
  from assms m have u: "lo2 \<le> length ?u" "within hi2 (length ?u)" "?e = [] \<or> ?e = [CHR 0x0A]"
    and g: "g = [(n1, ?t), (n2, ?u)]"
    by (auto simp: group_fixed group_at_end split: if_splits)
  have "s = ?t @ ?u @ ?e" by simp
  with t lt u g show ?thesis
    by (intro exI [of _ ?t] exI [of _ ?u] exI [of _ ?e]) simp
qed

lemma sep_shape_complete:
  assumes "list_all (in_class cl1) t" "list_all (in_class cl2) u" "\<not> in_class cl1 c"
    and "lo1 \<le> length t" "within hi1 (length t)" "lo2 \<le> length u" "within hi2 (length u)"
  shows "re_items [Group n1 cl1 lo1 hi1, Lit c, Group n2 cl2 lo2 hi2] (t @ c # u) =
           Some [(n1, t), (n2, u)]"
  using assms
  by (simp add: group_then_literal group_at_end takeWhile_all_id dropWhile_all_Nil)

lemma nosep_shape_complete:
  assumes "list_all (in_class cl1) t" "list_all (in_class cl2) u"
    and "length t = m" "lo2 \<le> length u" "within hi2 (length u)"
  shows "re_items [Group n1 cl1 m (Some m), Group n2 cl2 lo2 hi2] (t @ u) =
           Some [(n1, t), (n2, u)]"
  using assms
  by (simp add: group_fixed group_at_end takeWhile_all_id dropWhile_all_Nil)

subsection \<open>Trimming\<close>

lemma py_strip_ends:
  assumes "py_strip s \<noteq> []"
  shows "\<not> py_isspace (hd (py_strip s))" and "\<not> py_isspace (last (py_strip s))"
proof -
  let ?d = "dropWhile py_isspace s" and ?e = "dropWhile py_isspace (rev (dropWhile py_isspace s))"
  from assms have e: "?e \<noteq> []" by (simp add: py_strip_def)
  then have "\<not> py_isspace (hd ?e)" by (rule hd_dropWhile)
  with e show "\<not> py_isspace (last (py_strip s))"
    by (simp add: py_strip_def last_rev)
  from e have d: "?d \<noteq> []" by (metis dropWhile.simps(1) rev.simps(1))
  then have nd: "\<not> py_isspace (hd ?d)" by (rule hd_dropWhile)
  from e obtain j where "?e = drop j (rev ?d)" 
    by (metis dropWhile_eq_drop)
  then have "py_strip s = take (length ?d - j) ?d"
    by (simp add: py_strip_def rev_drop)
  with assms have "hd (py_strip s) = hd ?d"
    by (metis hd_take take_eq_Nil2 bot_nat_0.not_eq_extremum)
  with nd show "\<not> py_isspace (hd (py_strip s))" by simp
qed

lemma py_strip_id:
  assumes "s \<noteq> []" "\<not> py_isspace (hd s)" "\<not> py_isspace (last s)"
  shows "py_strip s = s"
proof -
  from assms have "dropWhile py_isspace s = s" by (cases s) auto
  moreover from assms have "dropWhile py_isspace (rev s) = rev s"
    by (cases "rev s") (auto simp: hd_rev)
  ultimately show ?thesis by (simp add: py_strip_def)
qed

section \<open>The loop and the matcher\<close>

lemma py_strip_Nil [simp]: "py_strip [] = []"
  by (simp add: py_strip_def)

lemma extract_fields_month_text:
  assumes "extract_fields p s = Some f" and "month_type p = Text"
  shows "\<exists>c cs. original_month_text f = Some (c # cs)"
  using assms
  by (auto simp: extract_fields_def Let_def neq_Nil_conv split: option.splits if_splits sum.splits)

lemma extract_fields_month_range:
  assumes "extract_fields p s = Some f" and "month_type p \<noteq> Text"
  shows "1 \<le> month f \<and> month f \<le> 12"
  using assms
  by (auto simp: extract_fields_def Let_def split: option.splits if_splits sum.splits)

lemma formatted_month_total:
  assumes "extract_fields p s = Some f"
  shows "\<exists>fm. formatted_month p f = Inr fm"
proof (cases "month_type p = Text")
  case True
  with extract_fields_month_text [OF assms] obtain c cs
    where "original_month_text f = Some (c # cs)" by blast
  with True show ?thesis by (simp add: formatted_month_def)
next
  case False
  with extract_fields_month_range [OF assms] have "\<bar>month f\<bar> < 10000" by simp
  with False show ?thesis by (simp add: formatted_month_def py_format_0d_small)
qed

lemma format_expiry_assemble:
  assumes "formatted_month p f = Inr fm" and "formatted_year p f k = Inr fy"
  shows "format_expiry p f k = Inr (assemble p fm fy)"
  using assms by (simp add: format_expiry_def assemble_def)

lemma format_expiry_raises:
  assumes "formatted_year p f k = Inl e"
  shows "format_expiry p f k = Inl e"
  using assms by (simp add: format_expiry_def)

lemma pattern_loop_first_match:
  "pattern_loop ps s k =
     (case first_match ps s of
        None \<Rightarrow> Inr None
      | Some (p, f) \<Rightarrow> (case format_expiry p f k of Inl e \<Rightarrow> Inl e | Inr r \<Rightarrow> Inr (Some r)))"
  by (induction ps) (auto split: option.splits)

lemma first_match_Some:
  assumes "first_match ps s = Some (p, f)"
  shows "p \<in> set ps \<and> extract_fields p s = Some f"
  using assms by (induction ps) (auto split: option.splits)

lemma calculate_classify:
  "calculate_new_expiry s k =
     (case classify s of
        None \<Rightarrow> Inr None
      | Some (p, f) \<Rightarrow> (case format_expiry p f k of Inl e \<Rightarrow> Inl e | Inr r \<Rightarrow> Inr (Some r)))"
  by (simp add: calculate_new_expiry_def classify_def Let_def pattern_loop_first_match)

lemma classify_Some:
  assumes "classify s = Some (p, f)"
  shows "p \<in> set EXP_PATTERNS \<and> extract_fields p (py_strip s) = Some f"
  using assms by (auto simp: classify_def dest: first_match_Some split: if_splits)

lemma calculate_of_classify:
  assumes "classify s = Some (p, f)"
  shows "\<exists>fm. formatted_month p f = Inr fm \<and>
           calculate_new_expiry s k =
             (case formatted_year p f k of
                Inl e \<Rightarrow> Inl e
              | Inr fy \<Rightarrow> Inr (Some (assemble p fm fy)))"
proof -
  from classify_Some [OF assms] have "extract_fields p (py_strip s) = Some f" by simp
  from formatted_month_total [OF this] obtain fm where fm: "formatted_month p f = Inr fm" ..
  with assms show ?thesis
    by (cases "formatted_year p f k")
       (auto simp: calculate_classify format_expiry_assemble format_expiry_raises)
qed

lemma MONTH_MAP_range: "MONTH_MAP k = Some m \<Longrightarrow> 1 \<le> m \<and> m \<le> 12"
  by (simp add: MONTH_MAP_def split: if_splits)

lemma sep_rule_groups:
  assumes re: "regex p = [Group n1 cl1 lo1 hi1, Lit c, Group n2 cl2 lo2 hi2]"
    and c: "\<not> in_class cl1 c"
    and ex: "extract_fields p s = Some f" and last: "\<not> py_isspace (last s)"
  shows "\<exists>t u. s = t @ c # u \<and> re_match (regex p) s = Some [(n1, t), (n2, u)] \<and>
           list_all (in_class cl1) t \<and> list_all (in_class cl2) u \<and>
           lo1 \<le> length t \<and> within hi1 (length t) \<and> lo2 \<le> length u \<and> within hi2 (length u)"
proof -
  from ex re obtain g where g: "re_items [Group n1 cl1 lo1 hi1, Lit c, Group n2 cl2 lo2 hi2] s = Some g"
    by (auto simp: extract_fields_def re_match_def split: option.splits)
  from sep_shape_sound [OF g c] obtain t u e where
    s: "s = t @ c # u @ e" and e: "e = [] \<or> e = [CHR 0x0A]" and g': "g = [(n1, t), (n2, u)]"
    and rest: "list_all (in_class cl1) t" "list_all (in_class cl2) u"
      "lo1 \<le> length t" "within hi1 (length t)" "lo2 \<le> length u" "within hi2 (length u)"
    by blast
  from last s e have "e = []" by auto
  with s g g' re rest show ?thesis by (simp add: re_match_def)
qed

lemma nosep_rule_groups:
  assumes re: "regex p = [Group n1 cl1 m (Some m), Group n2 cl2 lo2 hi2]"
    and ex: "extract_fields p s = Some f" and last: "\<not> py_isspace (last s)"
  shows "\<exists>t u. s = t @ u \<and> re_match (regex p) s = Some [(n1, t), (n2, u)] \<and>
           list_all (in_class cl1) t \<and> list_all (in_class cl2) u \<and>
           length t = m \<and> lo2 \<le> length u \<and> within hi2 (length u)"
proof -
  from ex re obtain g where g: "re_items [Group n1 cl1 m (Some m), Group n2 cl2 lo2 hi2] s = Some g"
    by (auto simp: extract_fields_def re_match_def split: option.splits)
  from nosep_shape_sound [OF g] obtain t u e where
    s: "s = t @ u @ e" and e: "e = [] \<or> e = [CHR 0x0A]" and g': "g = [(n1, t), (n2, u)]"
    and rest: "list_all (in_class cl1) t" "list_all (in_class cl2) u"
      "length t = m" "lo2 \<le> length u" "within hi2 (length u)"
    by blast
  from last s e have "e = []" by auto
  with s g g' re rest show ?thesis by (simp add: re_match_def)
qed

text \<open>What a pattern that applies has read, by the month representation.\<close>

lemma text_fields:
  assumes g: "re_match (regex p) s = Some [(''month_text'', t), (''year'', u)]"
    and mt: "month_type p = Text" and ex: "extract_fields p s = Some f"
  shows "t \<noteq> [] \<and> original_month_text f = Some t \<and> MONTH_MAP (py_lower t) = Some (month f) \<and>
         py_int u = Inr (year f) \<and> 1 \<le> month f \<and> month f \<le> 12"
  using ex g mt
  by (auto simp: extract_fields_def convert_year_def dest: MONTH_MAP_range
           split: option.splits if_splits sum.splits)

lemma numeric_fields:
  assumes g: "re_match (regex p) s = Some [(n1, t1), (n2, t2)]"
    and m: "map_of [(n1, t1), (n2, t2)] ''month'' = Some t"
    and y: "map_of [(n1, t1), (n2, t2)] ''year'' = Some u"
    and mt: "month_type p = Numeric" and ex: "extract_fields p s = Some f"
  shows "t \<noteq> [] \<and> original_month_text f = None \<and> py_int t = Inr (month f) \<and>
         py_int u = Inr (year f) \<and> 1 \<le> month f \<and> month f \<le> 12"
  using ex g mt m y
  by (auto simp: extract_fields_def convert_year_def
           split: option.splits if_splits sum.splits)

lemma in_class_eq [simp]: "in_class Alpha = is_alpha" "in_class Digit = is_digit"
  by (simp_all add: fun_eq_iff)

lemma text_rule_shape:
  assumes re: "regex p = [Group ''month_text'' Alpha 1 None, Lit c, Group ''year'' Digit w (Some w)]"
    and p: "month_type p = Text" "separator p = [c]" "month_first p" "year_length p = w"
    and c: "\<not> is_alpha c"
    and ex: "extract_fields p s = Some f" and last: "\<not> py_isspace (last s)"
  shows "\<exists>ms ys. s = assemble p ms ys \<and> reads_fields p f ms ys"
proof -
  from c have "\<not> in_class Alpha c" by simp
  from sep_rule_groups [OF re this ex last] obtain t u where
    s: "s = t @ c # u" and g: "re_match (regex p) s = Some [(''month_text'', t), (''year'', u)]"
    and tu: "list_all is_alpha t" "list_all is_digit u" "length u = w"
    by auto
  from text_fields [OF g p(1) ex] s tu p show ?thesis
    by (intro exI [of _ t] exI [of _ u]) (simp add: assemble_def reads_fields_def)
qed

lemma numeric_rule_shape:
  assumes re: "regex p = [Group ''month'' Digit 1 (Some 2), Lit c, Group ''year'' Digit w (Some w)]"
    and p: "month_type p = Numeric" "separator p = [c]" "month_first p" "year_length p = w"
    and c: "\<not> is_digit c"
    and ex: "extract_fields p s = Some f" and last: "\<not> py_isspace (last s)"
  shows "\<exists>ms ys. s = assemble p ms ys \<and> reads_fields p f ms ys"
proof -
  from c have "\<not> in_class Digit c" by simp
  from sep_rule_groups [OF re this ex last] obtain t u where
    s: "s = t @ c # u" and g: "re_match (regex p) s = Some [(''month'', t), (''year'', u)]"
    and tu: "list_all is_digit t" "list_all is_digit u" "length u = w" "length t \<le> 2"
    by auto
  from numeric_fields [OF g _ _ p(1) ex, of t u] s tu p show ?thesis
    by (intro exI [of _ t] exI [of _ u]) (simp add: assemble_def reads_fields_def)
qed

lemma year_first_rule_shape:
  assumes re: "regex p = [Group ''year'' Digit 4 (Some 4), Lit c, Group ''month'' Digit 1 (Some 2)]"
    and p: "month_type p = Numeric" "separator p = [c]" "\<not> month_first p" "year_length p = 4"
    and c: "\<not> is_digit c"
    and ex: "extract_fields p s = Some f" and last: "\<not> py_isspace (last s)"
  shows "\<exists>ms ys. s = assemble p ms ys \<and> reads_fields p f ms ys"
proof -
  from c have "\<not> in_class Digit c" by simp
  from sep_rule_groups [OF re this ex last] obtain u t where
    s: "s = u @ c # t" and g: "re_match (regex p) s = Some [(''year'', u), (''month'', t)]"
    and tu: "list_all is_digit t" "list_all is_digit u" "length u = 4" "length t \<le> 2"
    by auto
  from numeric_fields [OF g _ _ p(1) ex, of t u] s tu p show ?thesis
    by (intro exI [of _ t] exI [of _ u]) (simp add: assemble_def reads_fields_def)
qed

lemma no_separator_rule_shape:
  assumes re: "regex p = [Group ''month'' Digit 2 (Some 2), Group ''year'' Digit w (Some w)]"
    and p: "month_type p = Numeric" "separator p = []" "month_first p" "year_length p = w"
    and ex: "extract_fields p s = Some f" and last: "\<not> py_isspace (last s)"
  shows "\<exists>ms ys. s = assemble p ms ys \<and> reads_fields p f ms ys"
proof -
  from nosep_rule_groups [OF re ex last] obtain t u where
    s: "s = t @ u" and g: "re_match (regex p) s = Some [(''month'', t), (''year'', u)]"
    and tu: "list_all is_digit t" "list_all is_digit u" "length u = w" "length t = 2"
    by auto
  from numeric_fields [OF g _ _ p(1) ex, of t u] s tu p show ?thesis
    by (intro exI [of _ t] exI [of _ u]) (simp add: assemble_def reads_fields_def)
qed

lemma extract_fields_shape:
  assumes p: "p \<in> set EXP_PATTERNS"
    and ex: "extract_fields p s = Some f" and last: "\<not> py_isspace (last s)"
  shows "\<exists>ms ys. s = assemble p ms ys \<and> reads_fields p f ms ys"
  using p unfolding EXP_PATTERNS_def
  apply (simp only: list.set insert_iff empty_iff)
  apply (elim disjE)
  subgoal by (rule text_rule_shape [where c = "CHR ''-''" and w = 2, OF _ _ _ _ _ _ ex last]; simp)
  subgoal by (rule text_rule_shape [where c = "CHR ''-''" and w = 4, OF _ _ _ _ _ _ ex last]; simp)
  subgoal by (rule text_rule_shape [where c = "CHR ''/''" and w = 2, OF _ _ _ _ _ _ ex last]; simp)
  subgoal by (rule text_rule_shape [where c = "CHR ''/''" and w = 4, OF _ _ _ _ _ _ ex last]; simp)
  subgoal by (rule numeric_rule_shape [where c = "CHR ''/''" and w = 2, OF _ _ _ _ _ _ ex last]; simp)
  subgoal by (rule numeric_rule_shape [where c = "CHR ''-''" and w = 2, OF _ _ _ _ _ _ ex last]; simp)
  subgoal by (rule numeric_rule_shape [where c = "CHR ''/''" and w = 4, OF _ _ _ _ _ _ ex last]; simp)
  subgoal by (rule numeric_rule_shape [where c = "CHR ''-''" and w = 4, OF _ _ _ _ _ _ ex last]; simp)
  subgoal by (rule year_first_rule_shape [where c = "CHR ''/''", OF _ _ _ _ _ _ ex last]; simp)
  subgoal by (rule year_first_rule_shape [where c = "CHR ''-''", OF _ _ _ _ _ _ ex last]; simp)
  subgoal by (rule no_separator_rule_shape [where w = 2, OF _ _ _ _ _ ex last]; simp)
  subgoal by (rule no_separator_rule_shape [where w = 4, OF _ _ _ _ _ ex last]; simp)
  subgoal by simp
  done

lemma first_match_nth:
  assumes "i < length ps" and "extract_fields (ps ! i) s = Some f"
    and "\<forall>j<i. extract_fields (ps ! j) s = None"
  shows "first_match ps s = Some (ps ! i, f)"
  using assms
proof (induction ps arbitrary: i)
  case Nil
  then show ?case by simp
next
  case (Cons p ps)
  show ?case
  proof (cases i)
    case 0
    with Cons.prems show ?thesis by simp
  next
    case (Suc i')
    with Cons.prems have "extract_fields p s = None" by auto
    moreover from Suc Cons.prems have "first_match ps s = Some (ps ! i', f)"
      by (intro Cons.IH) auto
    ultimately show ?thesis using Suc by simp
  qed
qed

lemma first_match_None:
  "first_match ps s = None \<longleftrightarrow> (\<forall>p\<in>set ps. extract_fields p s = None)"
  by (induction ps) (auto split: option.splits)

lemma alpha_run_no_digit_run:
  "takeWhile is_alpha s \<noteq> [] \<Longrightarrow> takeWhile is_digit s = []"
  by (cases s) (auto dest: alpha_not_digit split: if_splits)

lemmas regex_eval = extract_fields_def re_match_def group_then_literal group_at_end group_fixed

lemma extract_fields_Nil:
  assumes "p \<in> set EXP_PATTERNS"
  shows "extract_fields p [] = None"
  using assms unfolding EXP_PATTERNS_def
  by (auto simp: regex_eval)

lemma first_group_text:
  assumes "re_match (Group n cl lo hi # Lit c # r) s = Some g" and "\<not> in_class cl c"
  shows "map_of g n = Some (takeWhile (in_class cl) s)"
  using assms by (auto simp: re_match_def group_then_literal split: if_splits)

lemma digit_group_needs_digit:
  assumes "takeWhile is_digit s = []" and "0 < lo"
  shows "re_items (Group n Digit lo hi # r) s = None"
proof -
  from assms(2) have "backtrack (re_items r) s lo 0 = None"
    by (subst backtrack.simps) simp
  with assms(1) show ?thesis
    by (simp add: re_items.simps(3) split: option.splits)
qed

lemma text_rule_unknown:
  assumes re: "regex p = Group ''month_text'' Alpha lo hi # Lit c # r"
    and p: "month_type p = Text" and c: "\<not> is_alpha c"
    and unknown: "MONTH_MAP (py_lower (takeWhile is_alpha s)) = None"
  shows "extract_fields p s = None"
proof (cases "re_match (regex p) s")
  case None
  then show ?thesis by (simp add: extract_fields_def)
next
  case (Some g)
  with re c have "map_of g ''month_text'' = Some (takeWhile is_alpha s)"
    using first_group_text [of "''month_text''" Alpha lo hi c r s g] by simp
  with Some p unknown show ?thesis by (simp add: extract_fields_def)
qed

lemma digit_rule_needs_digit:
  assumes "regex p = Group n Digit lo hi # r" and "0 < lo" and "takeWhile is_digit s = []"
  shows "extract_fields p s = None"
  using assms by (simp add: extract_fields_def re_match_def digit_group_needs_digit)

lemma unknown_month_name:
  assumes p: "p \<in> set EXP_PATTERNS" and run: "takeWhile is_alpha s \<noteq> []"
    and unknown: "MONTH_MAP (py_lower (takeWhile is_alpha s)) = None"
  shows "extract_fields p s = None"
proof -
  note nd = alpha_run_no_digit_run [OF run]
  have textual: "extract_fields q s = None"
    if "regex q = Group ''month_text'' Alpha 1 None # Lit c # r" "month_type q = Text" "\<not> is_alpha c"
    for q c r
    using that unknown by (rule text_rule_unknown)
  have numeric: "extract_fields q s = None" if "regex q = Group n Digit lo hi # r" "0 < lo"
    for q n lo hi r
    using that nd by (rule digit_rule_needs_digit)
  from p show ?thesis unfolding EXP_PATTERNS_def
    apply (simp only: list.set insert_iff empty_iff)
    apply (elim disjE)
    subgoal by (rule textual [where c = "CHR ''-''"]; simp)
    subgoal by (rule textual [where c = "CHR ''-''"]; simp)
    subgoal by (rule textual [where c = "CHR ''/''"]; simp)
    subgoal by (rule textual [where c = "CHR ''/''"]; simp)
    subgoal by (rule numeric [where lo = 1]; simp)
    subgoal by (rule numeric [where lo = 1]; simp)
    subgoal by (rule numeric [where lo = 1]; simp)
    subgoal by (rule numeric [where lo = 1]; simp)
    subgoal by (rule numeric [where lo = 4]; simp)
    subgoal by (rule numeric [where lo = 4]; simp)
    subgoal by (rule numeric [where lo = 2]; simp)
    subgoal by (rule numeric [where lo = 2]; simp)
    subgoal by simp
    done
qed

lemma section6_order: "map rule_shape EXP_PATTERNS = section6_rules"
  by (simp add: EXP_PATTERNS_def section6_rules_def rule_shape_def)

lemma section6_grammar: "map regex EXP_PATTERNS = map section6_regex section6_rules"
  by (simp add: EXP_PATTERNS_def section6_rules_def)

lemma text_rules_first: "map month_type EXP_PATTERNS = replicate 4 Text @ replicate 8 Numeric"
  by (simp add: EXP_PATTERNS_def numeral_eq_Suc)

subsection \<open>Letter case\<close>

lemma char_of_code [simp]: "char_of (code c) = c"
  by (simp add: code_def)

lemma upper_char_alpha: "is_alpha c \<Longrightarrow> is_upper (upper_char c)"
  using code_lt [of c]
  by (auto simp: is_alpha_def upper_char_def is_upper_def is_lower_def)

lemma lower_char_alpha: "is_alpha c \<Longrightarrow> is_lower (lower_char c)"
  using code_lt [of c]
  by (auto simp: is_alpha_def lower_char_def is_upper_def is_lower_def)

lemma lower_upper_char [simp]: "lower_char (upper_char c) = lower_char c"
proof (cases "is_lower c")
  case True
  then have "code c - 32 + 32 = code c" "code c - 32 < 256" "\<not> is_upper c"
    "65 \<le> code c - 32" "code c - 32 \<le> 90"
    using code_lt [of c] by (auto simp: is_lower_def is_upper_def)
  with True show ?thesis
    by (simp add: upper_char_def lower_char_def is_upper_def)
next
  case False
  then show ?thesis by (simp add: upper_char_def)
qed

lemma lower_lower_char [simp]: "lower_char (lower_char c) = lower_char c"
  using code_lt [of c]
  by (auto simp: lower_char_def is_upper_def)

lemma upper_upper_char [simp]: "upper_char (upper_char c) = upper_char c"
  using code_lt [of c]
  by (auto simp: upper_char_def is_lower_def)

lemma is_alpha_upper_char: "is_alpha c \<Longrightarrow> is_alpha (upper_char c)"
  by (simp add: upper_char_alpha is_alpha_def)

lemma is_alpha_lower_char: "is_alpha c \<Longrightarrow> is_alpha (lower_char c)"
  by (simp add: lower_char_alpha is_alpha_def)

lemma py_lower_idem [simp]: "py_lower (py_lower s) = py_lower s"
  by (simp add: py_lower_def)

lemma list_all_lower: "list_all is_alpha s \<Longrightarrow> list_all is_lower (py_lower s)"
  by (induction s) (simp_all add: py_lower_def lower_char_alpha)

subsection \<open>From the matcher to the text of the input\<close>

lemma classified_input_shape:
  assumes "classify s = Some (p, f)"
  shows "\<exists>ms ys. py_strip s = assemble p ms ys \<and> reads_fields p f ms ys"
proof -
  from assms have ne: "py_strip s \<noteq> []"
    by (auto simp: classify_def split: if_splits)
  from classify_Some [OF assms] py_strip_ends(2) [OF ne] show ?thesis
    by (intro extract_fields_shape) simp_all
qed

lemma formatted_year_2: "year_length p = 2 \<Longrightarrow>
    formatted_year p f k = Inr (format_0d_text 2 ((year f + k) mod 100))"
proof -
  have "0 \<le> (year f + k) mod 100" "(year f + k) mod 100 < 100" by simp_all
  then have "\<bar>(year f + k) mod 100\<bar> < 10000" by linarith
  then show "year_length p = 2 \<Longrightarrow>
    formatted_year p f k = Inr (format_0d_text 2 ((year f + k) mod 100))"
    by (simp add: formatted_year_def Let_def py_format_0d_small)
qed

lemma formatted_year_4: "year_length p = 4 \<Longrightarrow>
    formatted_year p f k = py_format_0d 4 (year f + k)"
  by (simp add: formatted_year_def Let_def)

lemma two_digits:
  "length (format_0d_text 2 (n mod 100)) = 2 \<and> list_all is_digit (format_0d_text 2 (n mod 100)) \<and>
   py_int (format_0d_text 2 (n mod 100)) = Inr (n mod 100)"
  by (simp add: length_format_0d_text format_0d_text_digits py_int_format_0d_text)

lemma formatted_month_numeric:
  assumes "month_type p = Numeric" and "1 \<le> month f" and "month f \<le> 12"
  shows "formatted_month p f = Inr (format_0d_text 2 (month f))"
    and "length (format_0d_text 2 (month f)) = 2"
    and "list_all is_digit (format_0d_text 2 (month f))"
    and "py_int (format_0d_text 2 (month f)) = Inr (month f)"
  using assms
  by (simp_all add: formatted_month_def py_format_0d_small length_format_0d_text
        format_0d_text_digits py_int_format_0d_text)

lemma formatted_month_text:
  assumes "month_type p = Text" and "original_month_text f = Some ms" and "ms \<noteq> []"
    and "list_all is_alpha ms"
  shows "formatted_month p f = Inr (upper_char (hd ms) # py_lower (tl ms))"
    and "is_upper (upper_char (hd ms))"
    and "list_all is_lower (py_lower (tl ms))"
    and "py_lower (upper_char (hd ms) # py_lower (tl ms)) = py_lower ms"
  using assms
  by (cases ms; simp add: formatted_month_def py_upper_def py_lower_def upper_char_alpha
        list_all_lower [unfolded py_lower_def])+

lemma convert_year_Some [simp]: "py_int ys = Inr y \<Longrightarrow> convert_year (Some ys) = Some y"
  by (simp add: convert_year_def)

lemma group_fixed_then_group:
  "re_items (Group name cl m (Some m) # Group name' cl' lo' hi' # r) s =
     (if m \<le> length (takeWhile (in_class cl) s)
      then map_option (\<lambda>g. (name, take m s) # g) (re_items (Group name' cl' lo' hi' # r) (drop m s))
      else None)"
  by (rule group_fixed)

lemma no_digit_run [simp]:
  "ms \<noteq> [] \<Longrightarrow> list_all is_alpha ms \<Longrightarrow> takeWhile is_digit (ms @ r) = []"
  by (cases ms) (auto dest: alpha_not_digit)

lemma no_alpha_run [simp]:
  "ms \<noteq> [] \<Longrightarrow> list_all is_digit ms \<Longrightarrow> takeWhile is_alpha (ms @ r) = []"
  by (cases ms) (auto dest: digit_not_alpha)

lemmas match_eval = extract_fields_def re_match_def group_then_literal group_at_end
  group_fixed_then_group takeWhile_all_id dropWhile_all_Nil Suc_le_eq

lemma text_string_classified:
  assumes "ms \<noteq> []" "list_all is_alpha ms" "list_all is_digit ys"
    and "MONTH_MAP (py_lower ms) = Some m" "py_int ys = Inr y"
  shows "length ys = 2 \<Longrightarrow> first_match EXP_PATTERNS (ms @ CHR ''-'' # ys) =
            Some (EXP_PATTERNS ! 0, \<lparr>month = m, original_month_text = Some ms, year = y\<rparr>)"
    and "length ys = 4 \<Longrightarrow> first_match EXP_PATTERNS (ms @ CHR ''-'' # ys) =
            Some (EXP_PATTERNS ! 1, \<lparr>month = m, original_month_text = Some ms, year = y\<rparr>)"
    and "length ys = 2 \<Longrightarrow> first_match EXP_PATTERNS (ms @ CHR ''/'' # ys) =
            Some (EXP_PATTERNS ! 2, \<lparr>month = m, original_month_text = Some ms, year = y\<rparr>)"
    and "length ys = 4 \<Longrightarrow> first_match EXP_PATTERNS (ms @ CHR ''/'' # ys) =
            Some (EXP_PATTERNS ! 3, \<lparr>month = m, original_month_text = Some ms, year = y\<rparr>)"
  using assms by (simp_all add: EXP_PATTERNS_def match_eval)

lemma numeric_string_classified:
  assumes "ms \<noteq> []" "length ms \<le> 2" "list_all is_digit ms" "list_all is_digit ys"
    and "py_int ms = Inr m" "1 \<le> m" "m \<le> 12" "py_int ys = Inr y"
  shows "length ys = 2 \<Longrightarrow> first_match EXP_PATTERNS (ms @ CHR ''/'' # ys) =
            Some (EXP_PATTERNS ! 4, \<lparr>month = m, original_month_text = None, year = y\<rparr>)"
    and "length ys = 2 \<Longrightarrow> first_match EXP_PATTERNS (ms @ CHR ''-'' # ys) =
            Some (EXP_PATTERNS ! 5, \<lparr>month = m, original_month_text = None, year = y\<rparr>)"
    and "length ys = 4 \<Longrightarrow> first_match EXP_PATTERNS (ms @ CHR ''/'' # ys) =
            Some (EXP_PATTERNS ! 6, \<lparr>month = m, original_month_text = None, year = y\<rparr>)"
    and "length ys = 4 \<Longrightarrow> first_match EXP_PATTERNS (ms @ CHR ''-'' # ys) =
            Some (EXP_PATTERNS ! 7, \<lparr>month = m, original_month_text = None, year = y\<rparr>)"
  using assms by (simp_all add: EXP_PATTERNS_def match_eval)

lemma year_first_string_classified:
  assumes "ms \<noteq> []" "length ms \<le> 2" "list_all is_digit ms" "list_all is_digit ys"
    and "py_int ms = Inr m" "1 \<le> m" "m \<le> 12" "py_int ys = Inr y" "length ys = 4"
  shows "first_match EXP_PATTERNS (ys @ CHR ''/'' # ms) =
            Some (EXP_PATTERNS ! 8, \<lparr>month = m, original_month_text = None, year = y\<rparr>)"
    and "first_match EXP_PATTERNS (ys @ CHR ''-'' # ms) =
            Some (EXP_PATTERNS ! 9, \<lparr>month = m, original_month_text = None, year = y\<rparr>)"
proof -
  from assms have "ys \<noteq> []" by auto
  with assms show
    "first_match EXP_PATTERNS (ys @ CHR ''/'' # ms) =
       Some (EXP_PATTERNS ! 8, \<lparr>month = m, original_month_text = None, year = y\<rparr>)"
    "first_match EXP_PATTERNS (ys @ CHR ''-'' # ms) =
       Some (EXP_PATTERNS ! 9, \<lparr>month = m, original_month_text = None, year = y\<rparr>)"
    by (simp_all add: EXP_PATTERNS_def match_eval)
qed

lemma no_separator_string_classified:
  assumes "length ms = 2" "list_all is_digit ms" "list_all is_digit ys"
    and "py_int ms = Inr m" "1 \<le> m" "m \<le> 12" "py_int ys = Inr y"
  shows "length ys = 2 \<Longrightarrow> first_match EXP_PATTERNS (ms @ ys) =
            Some (EXP_PATTERNS ! 10, \<lparr>month = m, original_month_text = None, year = y\<rparr>)"
    and "length ys = 4 \<Longrightarrow> first_match EXP_PATTERNS (ms @ ys) =
            Some (EXP_PATTERNS ! 11, \<lparr>month = m, original_month_text = None, year = y\<rparr>)"
proof -
  from assms have ne: "ms \<noteq> []" by auto
  with assms show "length ys = 2 \<Longrightarrow> first_match EXP_PATTERNS (ms @ ys) =
            Some (EXP_PATTERNS ! 10, \<lparr>month = m, original_month_text = None, year = y\<rparr>)"
    by (simp add: EXP_PATTERNS_def match_eval)
  from ne assms show "length ys = 4 \<Longrightarrow> first_match EXP_PATTERNS (ms @ ys) =
            Some (EXP_PATTERNS ! 11, \<lparr>month = m, original_month_text = None, year = y\<rparr>)"
    by (simp add: EXP_PATTERNS_def match_eval)
qed

lemma pattern_facts:
  assumes "p \<in> set EXP_PATTERNS"
  shows "year_length p = 2 \<or> year_length p = 4"
    and "separator p = [] \<or> separator p = ''-'' \<or> separator p = ''/''"
    and "separator p = [] \<Longrightarrow> month_type p = Numeric"
  using assms by (auto simp: EXP_PATTERNS_def)

lemma formatted_year_new_year:
  "formatted_year p f k = py_format_0d (if year_length p = 2 then 2 else 4) (new_year p f k)"
  by (simp add: formatted_year_def new_year_def Let_def)

lemma new_year_fits:
  assumes "year_length p = 2 \<or> year_length p = 4"
    and "year_length p = 4 \<longrightarrow> 0 \<le> year f + k \<and> year f + k \<le> 9999"
  shows "0 \<le> new_year p f k" and "new_year p f k < 10 ^ year_length p"
  using assms by (auto simp: new_year_def)

lemma formatted_year_fits:
  assumes "year_length p = 2 \<or> year_length p = 4"
    and "year_length p = 4 \<longrightarrow> 0 \<le> year f + k \<and> year f + k \<le> 9999"
  shows "\<exists>fy. formatted_year p f k = Inr fy \<and> length fy = year_length p \<and>
           list_all is_digit fy \<and> py_int fy = Inr (new_year p f k)"
proof -
  note ny = new_year_fits [OF assms]
  from ny assms(1) have "\<bar>new_year p f k\<bar> < 10000" by auto
  then have "formatted_year p f k =
      Inr (format_0d_text (if year_length p = 2 then 2 else 4) (new_year p f k))"
    by (simp add: formatted_year_new_year py_format_0d_small)
  with ny assms(1) show ?thesis
    by (auto simp: length_format_0d_text format_0d_text_digits py_int_format_0d_text)
qed

lemma formatted_year_cases:
  assumes "year_length p = 2 \<or> year_length p = 4"
  shows "formatted_year p f k =
           (if year_length p = 4 \<and> 10 ^ max_str_digits \<le> \<bar>year f + k\<bar> then Inl ValueError
            else Inr (format_0d_text (year_length p) (new_year p f k)))"
  using assms
  by (auto simp: formatted_year_2 formatted_year_4 py_format_0d_cases new_year_def)

lemma list_all_alpha_lower: "list_all is_alpha s \<Longrightarrow> list_all is_alpha (py_lower s)"
  by (induction s) (simp_all add: py_lower_def is_alpha_lower_char)

lemma output_reads_fields:
  assumes p: "p \<in> set EXP_PATTERNS" and r: "reads_fields p f ms ys"
    and fm: "formatted_month p f = Inr fm"
    and fits: "year_length p = 4 \<longrightarrow> 0 \<le> year f + k \<and> year f + k \<le> 9999"
    and fy: "formatted_year p f k = Inr fy"
  shows "reads_fields p (output_fields p f k fm) fm fy"
    and "separator p = [] \<longrightarrow> length fm = 2"
proof -
  note yl = pattern_facts(1) [OF p]
  from formatted_year_fits [OF yl fits] fy
  have fy': "length fy = year_length p" "list_all is_digit fy" "py_int fy = Inr (new_year p f k)"
    by auto
  from r have m: "1 \<le> month f" "month f \<le> 12" by (simp_all add: reads_fields_def)
  show "reads_fields p (output_fields p f k fm) fm fy"
  proof (cases "month_type p")
    case Text
    with r have ms: "original_month_text f = Some ms" "ms \<noteq> []" "list_all is_alpha ms"
      and mm: "MONTH_MAP (py_lower ms) = Some (month f)"
      by (simp_all add: reads_fields_def)
    from formatted_month_text [OF Text ms] fm
    have fm': "fm = upper_char (hd ms) # py_lower (tl ms)" "py_lower fm = py_lower ms"
      by simp_all
    from ms have "is_alpha (hd ms)" "list_all is_alpha (tl ms)" by (cases ms; simp)+
    with fm'(1) have "list_all is_alpha fm"
      by (simp add: is_alpha_upper_char list_all_alpha_lower)
    with Text fy' m mm fm' show ?thesis
      by (simp add: reads_fields_def output_fields_def)
  next
    case Numeric
    from formatted_month_numeric [OF Numeric m] fm Numeric fy' m show ?thesis
      by (auto simp: reads_fields_def output_fields_def)
  qed
  show "separator p = [] \<longrightarrow> length fm = 2"
  proof
    assume "separator p = []"
    then have "month_type p = Numeric" by (rule pattern_facts(3) [OF p])
    from formatted_month_numeric [OF this m] fm show "length fm = 2" by simp
  qed
qed

lemma output_formats_to_itself:
  assumes p: "p \<in> set EXP_PATTERNS" and r: "reads_fields p f ms ys"
    and fm: "formatted_month p f = Inr fm"
    and fits: "year_length p = 4 \<longrightarrow> 0 \<le> year f + k \<and> year f + k \<le> 9999"
    and fy: "formatted_year p f k = Inr fy"
  shows "format_expiry p (output_fields p f k fm) 0 = Inr (assemble p fm fy)"
proof -
  note yl = pattern_facts(1) [OF p]
  from new_year_fits [OF yl fits] yl
  have "formatted_year p (output_fields p f k fm) 0 = formatted_year p f k"
    by (auto simp: formatted_year_new_year new_year_def output_fields_def)
  with fy have "formatted_year p (output_fields p f k fm) 0 = Inr fy" by simp
  moreover have "formatted_month p (output_fields p f k fm) = Inr fm"
  proof (cases "month_type p")
    case Text
    with r have ms: "original_month_text f = Some ms" "ms \<noteq> []" "list_all is_alpha ms"
      by (simp_all add: reads_fields_def)
    from formatted_month_text(1) [OF Text ms] fm
    have "fm = upper_char (hd ms) # py_lower (tl ms)" by simp
    with Text show ?thesis
      by (simp add: formatted_month_def output_fields_def py_upper_def py_lower_def)
  next
    case Numeric
    with fm show ?thesis by (simp add: formatted_month_def output_fields_def)
  qed
  ultimately show ?thesis by (simp add: format_expiry_assemble)
qed

lemma pattern_enum:
  "set EXP_PATTERNS = {EXP_PATTERNS ! 0, EXP_PATTERNS ! 1, EXP_PATTERNS ! 2, EXP_PATTERNS ! 3, EXP_PATTERNS ! 4, EXP_PATTERNS ! 5, EXP_PATTERNS ! 6, EXP_PATTERNS ! 7, EXP_PATTERNS ! 8, EXP_PATTERNS ! 9, EXP_PATTERNS ! 10, EXP_PATTERNS ! 11}"
  by (simp add: EXP_PATTERNS_def)

lemma canonical_reclassified:
  assumes p: "p \<in> set EXP_PATTERNS" and r: "reads_fields p f ms ys"
    and two: "separator p = [] \<longrightarrow> length ms = 2"
  shows "first_match EXP_PATTERNS (assemble p ms ys) = Some (p, f)"
proof -
  from p consider (r0) "p = EXP_PATTERNS ! 0" | (r1) "p = EXP_PATTERNS ! 1" | (r2) "p = EXP_PATTERNS ! 2" | (r3) "p = EXP_PATTERNS ! 3" | (r4) "p = EXP_PATTERNS ! 4" | (r5) "p = EXP_PATTERNS ! 5" | (r6) "p = EXP_PATTERNS ! 6" | (r7) "p = EXP_PATTERNS ! 7" | (r8) "p = EXP_PATTERNS ! 8" | (r9) "p = EXP_PATTERNS ! 9" | (r10) "p = EXP_PATTERNS ! 10" | (r11) "p = EXP_PATTERNS ! 11"
    unfolding pattern_enum by blast
  then show ?thesis
  proof cases
    case r0
    then have q: "p = EXP_PATTERNS ! 0" .
    have pf: "month_type p = Text" "separator p = ''-''" "year_length p = 2" "month_first p = True"
      by (simp_all add: q EXP_PATTERNS_def)
    with r two have "first_match EXP_PATTERNS (assemble p ms ys) =
        Some (EXP_PATTERNS ! 0,
          \<lparr>month = month f, original_month_text = original_month_text f, year = year f\<rparr>)"
      unfolding assemble_def by (simp add: reads_fields_def text_string_classified(1))
    with q show ?thesis by simp
  next
    case r1
    then have q: "p = EXP_PATTERNS ! 1" .
    have pf: "month_type p = Text" "separator p = ''-''" "year_length p = 4" "month_first p = True"
      by (simp_all add: q EXP_PATTERNS_def)
    with r two have "first_match EXP_PATTERNS (assemble p ms ys) =
        Some (EXP_PATTERNS ! 1,
          \<lparr>month = month f, original_month_text = original_month_text f, year = year f\<rparr>)"
      unfolding assemble_def by (simp add: reads_fields_def text_string_classified(2))
    with q show ?thesis by simp
  next
    case r2
    then have q: "p = EXP_PATTERNS ! 2" .
    have pf: "month_type p = Text" "separator p = ''/''" "year_length p = 2" "month_first p = True"
      by (simp_all add: q EXP_PATTERNS_def)
    with r two have "first_match EXP_PATTERNS (assemble p ms ys) =
        Some (EXP_PATTERNS ! 2,
          \<lparr>month = month f, original_month_text = original_month_text f, year = year f\<rparr>)"
      unfolding assemble_def by (simp add: reads_fields_def text_string_classified(3))
    with q show ?thesis by simp
  next
    case r3
    then have q: "p = EXP_PATTERNS ! 3" .
    have pf: "month_type p = Text" "separator p = ''/''" "year_length p = 4" "month_first p = True"
      by (simp_all add: q EXP_PATTERNS_def)
    with r two have "first_match EXP_PATTERNS (assemble p ms ys) =
        Some (EXP_PATTERNS ! 3,
          \<lparr>month = month f, original_month_text = original_month_text f, year = year f\<rparr>)"
      unfolding assemble_def by (simp add: reads_fields_def text_string_classified(4))
    with q show ?thesis by simp
  next
    case r4
    then have q: "p = EXP_PATTERNS ! 4" .
    have pf: "month_type p = Numeric" "separator p = ''/''" "year_length p = 2" "month_first p = True"
      by (simp_all add: q EXP_PATTERNS_def)
    with r two have "first_match EXP_PATTERNS (assemble p ms ys) =
        Some (EXP_PATTERNS ! 4,
          \<lparr>month = month f, original_month_text = original_month_text f, year = year f\<rparr>)"
      unfolding assemble_def by (simp add: reads_fields_def numeric_string_classified(1))
    with q show ?thesis by simp
  next
    case r5
    then have q: "p = EXP_PATTERNS ! 5" .
    have pf: "month_type p = Numeric" "separator p = ''-''" "year_length p = 2" "month_first p = True"
      by (simp_all add: q EXP_PATTERNS_def)
    with r two have "first_match EXP_PATTERNS (assemble p ms ys) =
        Some (EXP_PATTERNS ! 5,
          \<lparr>month = month f, original_month_text = original_month_text f, year = year f\<rparr>)"
      unfolding assemble_def by (simp add: reads_fields_def numeric_string_classified(2))
    with q show ?thesis by simp
  next
    case r6
    then have q: "p = EXP_PATTERNS ! 6" .
    have pf: "month_type p = Numeric" "separator p = ''/''" "year_length p = 4" "month_first p = True"
      by (simp_all add: q EXP_PATTERNS_def)
    with r two have "first_match EXP_PATTERNS (assemble p ms ys) =
        Some (EXP_PATTERNS ! 6,
          \<lparr>month = month f, original_month_text = original_month_text f, year = year f\<rparr>)"
      unfolding assemble_def by (simp add: reads_fields_def numeric_string_classified(3))
    with q show ?thesis by simp
  next
    case r7
    then have q: "p = EXP_PATTERNS ! 7" .
    have pf: "month_type p = Numeric" "separator p = ''-''" "year_length p = 4" "month_first p = True"
      by (simp_all add: q EXP_PATTERNS_def)
    with r two have "first_match EXP_PATTERNS (assemble p ms ys) =
        Some (EXP_PATTERNS ! 7,
          \<lparr>month = month f, original_month_text = original_month_text f, year = year f\<rparr>)"
      unfolding assemble_def by (simp add: reads_fields_def numeric_string_classified(4))
    with q show ?thesis by simp
  next
    case r8
    then have q: "p = EXP_PATTERNS ! 8" .
    have pf: "month_type p = Numeric" "separator p = ''/''" "year_length p = 4" "month_first p = False"
      by (simp_all add: q EXP_PATTERNS_def)
    with r two have "first_match EXP_PATTERNS (assemble p ms ys) =
        Some (EXP_PATTERNS ! 8,
          \<lparr>month = month f, original_month_text = original_month_text f, year = year f\<rparr>)"
      unfolding assemble_def by (simp add: reads_fields_def year_first_string_classified(1))
    with q show ?thesis by simp
  next
    case r9
    then have q: "p = EXP_PATTERNS ! 9" .
    have pf: "month_type p = Numeric" "separator p = ''-''" "year_length p = 4" "month_first p = False"
      by (simp_all add: q EXP_PATTERNS_def)
    with r two have "first_match EXP_PATTERNS (assemble p ms ys) =
        Some (EXP_PATTERNS ! 9,
          \<lparr>month = month f, original_month_text = original_month_text f, year = year f\<rparr>)"
      unfolding assemble_def by (simp add: reads_fields_def year_first_string_classified(2))
    with q show ?thesis by simp
  next
    case r10
    then have q: "p = EXP_PATTERNS ! 10" .
    have pf: "month_type p = Numeric" "separator p = []" "year_length p = 2" "month_first p = True"
      by (simp_all add: q EXP_PATTERNS_def)
    with r two have "first_match EXP_PATTERNS (assemble p ms ys) =
        Some (EXP_PATTERNS ! 10,
          \<lparr>month = month f, original_month_text = original_month_text f, year = year f\<rparr>)"
      unfolding assemble_def by (simp add: reads_fields_def no_separator_string_classified(1))
    with q show ?thesis by simp
  next
    case r11
    then have q: "p = EXP_PATTERNS ! 11" .
    have pf: "month_type p = Numeric" "separator p = []" "year_length p = 4" "month_first p = True"
      by (simp_all add: q EXP_PATTERNS_def)
    with r two have "first_match EXP_PATTERNS (assemble p ms ys) =
        Some (EXP_PATTERNS ! 11,
          \<lparr>month = month f, original_month_text = original_month_text f, year = year f\<rparr>)"
      unfolding assemble_def by (simp add: reads_fields_def no_separator_string_classified(2))
    with q show ?thesis by simp
  qed
qed

lemma no_space_strip:
  assumes "s \<noteq> []" and "list_all (\<lambda>c. \<not> py_isspace c) s"
  shows "py_strip s = s"
proof -
  from assms have "\<not> py_isspace (hd s)" "\<not> py_isspace (last s)"
    by (simp_all add: list_all_iff)
  with assms(1) show ?thesis by (rule py_strip_id)
qed

lemma digits_no_space: "list_all is_digit s \<Longrightarrow> list_all (\<lambda>c. \<not> py_isspace c) s"
  by (induction s) (simp_all add: digit_not_space)

lemma letters_no_space: "list_all is_alpha s \<Longrightarrow> list_all (\<lambda>c. \<not> py_isspace c) s"
  by (induction s) (simp_all add: alpha_not_space)

lemma assemble_no_space:
  assumes p: "p \<in> set EXP_PATTERNS" and r: "reads_fields p f ms ys"
  shows "assemble p ms ys \<noteq> []" and "list_all (\<lambda>c. \<not> py_isspace c) (assemble p ms ys)"
proof -
  from r have ms: "ms \<noteq> []" and ys: "list_all (\<lambda>c. \<not> py_isspace c) ys"
    by (simp_all add: reads_fields_def digits_no_space)
  from ms show "assemble p ms ys \<noteq> []" by (simp add: assemble_def)
  from r have "list_all (\<lambda>c. \<not> py_isspace c) ms"
    by (cases "month_type p") (simp_all add: reads_fields_def digits_no_space letters_no_space)
  with ys pattern_facts(2) [OF p]
  show "list_all (\<lambda>c. \<not> py_isspace c) (assemble p ms ys)"
    by (auto simp: assemble_def)
qed

lemma canonical_classified:
  assumes p: "p \<in> set EXP_PATTERNS" and r: "reads_fields p f ms ys"
    and two: "separator p = [] \<longrightarrow> length ms = 2"
  shows "classify (assemble p ms ys) = Some (p, f)"
  using assemble_no_space [OF p r] canonical_reclassified [OF p r two]
  by (simp add: classify_def no_space_strip)

lemma own_rule_groups:
  assumes p: "p \<in> set EXP_PATTERNS" and r: "reads_fields p f ms ys"
    and two: "separator p = [] \<longrightarrow> length ms = 2"
  shows "\<exists>g. re_match (regex p) (assemble p ms ys) = Some g \<and> map_of g (month_group p) = Some ms"
proof -
  from r have ne: "ms \<noteq> []" "ys \<noteq> [] \<or> year_length p = 0"
    by (auto simp: reads_fields_def)
  from p consider (r0) "p = EXP_PATTERNS ! 0" | (r1) "p = EXP_PATTERNS ! 1" | (r2) "p = EXP_PATTERNS ! 2" | (r3) "p = EXP_PATTERNS ! 3" | (r4) "p = EXP_PATTERNS ! 4" | (r5) "p = EXP_PATTERNS ! 5" | (r6) "p = EXP_PATTERNS ! 6" | (r7) "p = EXP_PATTERNS ! 7" | (r8) "p = EXP_PATTERNS ! 8" | (r9) "p = EXP_PATTERNS ! 9" | (r10) "p = EXP_PATTERNS ! 10" | (r11) "p = EXP_PATTERNS ! 11"
    unfolding pattern_enum by blast
  then show ?thesis
  proof cases
    case r0
    with r two ne show ?thesis
      by (simp add: EXP_PATTERNS_def assemble_def reads_fields_def re_match_def month_group_def
            group_then_literal group_at_end group_fixed_then_group takeWhile_all_id
            dropWhile_all_Nil Suc_le_eq)
  next
    case r1
    with r two ne show ?thesis
      by (simp add: EXP_PATTERNS_def assemble_def reads_fields_def re_match_def month_group_def
            group_then_literal group_at_end group_fixed_then_group takeWhile_all_id
            dropWhile_all_Nil Suc_le_eq)
  next
    case r2
    with r two ne show ?thesis
      by (simp add: EXP_PATTERNS_def assemble_def reads_fields_def re_match_def month_group_def
            group_then_literal group_at_end group_fixed_then_group takeWhile_all_id
            dropWhile_all_Nil Suc_le_eq)
  next
    case r3
    with r two ne show ?thesis
      by (simp add: EXP_PATTERNS_def assemble_def reads_fields_def re_match_def month_group_def
            group_then_literal group_at_end group_fixed_then_group takeWhile_all_id
            dropWhile_all_Nil Suc_le_eq)
  next
    case r4
    with r two ne show ?thesis
      by (simp add: EXP_PATTERNS_def assemble_def reads_fields_def re_match_def month_group_def
            group_then_literal group_at_end group_fixed_then_group takeWhile_all_id
            dropWhile_all_Nil Suc_le_eq)
  next
    case r5
    with r two ne show ?thesis
      by (simp add: EXP_PATTERNS_def assemble_def reads_fields_def re_match_def month_group_def
            group_then_literal group_at_end group_fixed_then_group takeWhile_all_id
            dropWhile_all_Nil Suc_le_eq)
  next
    case r6
    with r two ne show ?thesis
      by (simp add: EXP_PATTERNS_def assemble_def reads_fields_def re_match_def month_group_def
            group_then_literal group_at_end group_fixed_then_group takeWhile_all_id
            dropWhile_all_Nil Suc_le_eq)
  next
    case r7
    with r two ne show ?thesis
      by (simp add: EXP_PATTERNS_def assemble_def reads_fields_def re_match_def month_group_def
            group_then_literal group_at_end group_fixed_then_group takeWhile_all_id
            dropWhile_all_Nil Suc_le_eq)
  next
    case r8
    with r two ne show ?thesis
      by (simp add: EXP_PATTERNS_def assemble_def reads_fields_def re_match_def month_group_def
            group_then_literal group_at_end group_fixed_then_group takeWhile_all_id
            dropWhile_all_Nil Suc_le_eq)
  next
    case r9
    with r two ne show ?thesis
      by (simp add: EXP_PATTERNS_def assemble_def reads_fields_def re_match_def month_group_def
            group_then_literal group_at_end group_fixed_then_group takeWhile_all_id
            dropWhile_all_Nil Suc_le_eq)
  next
    case r10
    with r two ne show ?thesis
      by (simp add: EXP_PATTERNS_def assemble_def reads_fields_def re_match_def month_group_def
            group_then_literal group_at_end group_fixed_then_group takeWhile_all_id
            dropWhile_all_Nil Suc_le_eq)
  next
    case r11
    with r two ne show ?thesis
      by (simp add: EXP_PATTERNS_def assemble_def reads_fields_def re_match_def month_group_def
            group_then_literal group_at_end group_fixed_then_group takeWhile_all_id
            dropWhile_all_Nil Suc_le_eq)
  qed
qed

lemma classified_output:
  assumes c: "classify s = Some (p, f)"
    and fits: "year_length p = 4 \<longrightarrow> 0 \<le> year f + k \<and> year f + k \<le> 9999"
  obtains ms ys fm fy where
    "py_strip s = assemble p ms ys" "reads_fields p f ms ys" "formatted_month p f = Inr fm"
    "formatted_year p f k = Inr fy"
    "calculate_new_expiry s k = Inr (Some (assemble p fm fy))"
    "reads_fields p (output_fields p f k fm) fm fy"
    "separator p = [] \<longrightarrow> length fm = 2"
    "classify (assemble p fm fy) = Some (p, output_fields p f k fm)"
    "calculate_new_expiry (assemble p fm fy) 0 = Inr (Some (assemble p fm fy))"
proof -
  from classify_Some [OF c] have p: "p \<in> set EXP_PATTERNS" by simp
  from classified_input_shape [OF c] obtain ms ys where
    s: "py_strip s = assemble p ms ys" and r: "reads_fields p f ms ys" by blast
  from formatted_year_fits [OF pattern_facts(1) [OF p] fits] obtain fy where
    fy: "formatted_year p f k = Inr fy" by blast
  from calculate_of_classify [OF c, of k] fy obtain fm where
    fm: "formatted_month p f = Inr fm"
    and out: "calculate_new_expiry s k = Inr (Some (assemble p fm fy))"
    by auto
  note r' = output_reads_fields [OF p r fm fits fy]
  note c' = canonical_classified [OF p r']
  from c' output_formats_to_itself [OF p r fm fits fy]
  have "calculate_new_expiry (assemble p fm fy) 0 = Inr (Some (assemble p fm fy))"
    by (simp add: calculate_classify)
  with s r fm fy out r' c' show ?thesis by (rule that)
qed

lemma huge_year_raises:
  assumes "classify s = Some (p, f)" and "year_length p = 4"
    and "10 ^ max_str_digits \<le> \<bar>year f + k\<bar>"
  shows "calculate_new_expiry s k = Inl ValueError"
  using calculate_of_classify [OF assms(1), of k] assms(2,3)
  by (auto simp: formatted_year_4 py_format_0d_cases)

lemma offset_beyond_limit: "0 \<le> y \<Longrightarrow> 0 \<le> a \<Longrightarrow> a \<le> \<bar>y + a\<bar>" for y a :: int
  by simp

lemma offset_just_below_limit:
  "0 \<le> y \<Longrightarrow> 0 < a \<Longrightarrow> \<not> a \<le> \<bar>y + (a - (y + 1))\<bar>" for y a :: int
  by simp

lemma offset_below_limit: "a \<le> \<bar>y + (- y - a)\<bar>" for y a :: int
  by simp

lemma calculate_eval:
  assumes "classify s = Some (p, f)" and "formatted_month p f = Inr fm"
    and "formatted_year p f k = Inr fy" and "assemble p fm fy = y"
  shows "calculate_new_expiry s k = Inr (Some y)"
  using assms by (simp add: calculate_classify format_expiry_assemble)

lemmas format_eval = formatted_year_def py_format_0d_def max_str_digits_def format_0d_text_def
  nat_digits.simps digit_chr_def char_of_eq_iff Let_def

section \<open>The claims\<close>

text \<open>
  Claim C10, as stated, fails: the f-string of a four-digit year is outside every
  \<^verbatim>\<open>try\<close>, and it raises \<open>ValueError\<close> once the new year has more than 4300 digits.
\<close>

theorem huge_offset_raises:
  "calculate_new_expiry ''12/2025'' (10 ^ 4300) = Inl ValueError"
proof -
  let ?p = "EXP_PATTERNS ! 6" and ?f = "\<lparr>month = 12, original_month_text = None, year = 2025\<rparr>"
  have c: "classify ''12/2025'' = Some (?p, ?f)" by code_simp
  have w: "year_length ?p = 4" by code_simp
  have "(10::int) ^ max_str_digits \<le> \<bar>2025 + 10 ^ max_str_digits\<bar>"
    by (rule offset_beyond_limit) simp_all
  then have "10 ^ max_str_digits \<le> \<bar>year ?f + 10 ^ max_str_digits\<bar>" by simp
  with c w have "calculate_new_expiry ''12/2025'' (10 ^ max_str_digits) = Inl ValueError"
    by (rule huge_year_raises)
  then show ?thesis unfolding max_str_digits_def .
qed

text \<open>
  Claim C10, amended. For every input string and every integer offset the function
  returns \<^verbatim>\<open>None\<close> or a string, with one exception: it raises \<open>ValueError\<close>, and only
  that, exactly when the input is classified under a rule with a four-digit year and the
  year plus the offset has more than 4300 decimal digits. Both integer conversions are
  guarded, and a textual month that reaches \<^verbatim>\<open>original_month_text[0]\<close> is not empty.
\<close>

theorem raises_only_beyond_digit_limit:
  "calculate_new_expiry s k = Inl e \<longleftrightarrow>
     e = ValueError \<and>
     (\<exists>p f. classify s = Some (p, f) \<and> year_length p = 4 \<and>
            10 ^ max_str_digits \<le> \<bar>year f + k\<bar>)"
proof (cases "classify s")
  case None
  then show ?thesis by (simp add: calculate_classify)
next
  case (Some pf)
  then obtain p f where c: "classify s = Some (p, f)" by (cases pf) simp
  from classify_Some [OF c] have "p \<in> set EXP_PATTERNS" by simp
  then have yl: "year_length p = 2 \<or> year_length p = 4" by (rule pattern_facts(1))
  from calculate_of_classify [OF c, of k] obtain fm where
    "calculate_new_expiry s k =
       (case formatted_year p f k of Inl e \<Rightarrow> Inl e | Inr fy \<Rightarrow> Inr (Some (assemble p fm fy)))"
    by blast
  with c yl show ?thesis
    by (auto simp: formatted_year_cases [OF yl])
qed

theorem raises_only_beyond_digit_limit_witness:
  "calculate_new_expiry ''2025-12'' (10 ^ 4300 - 2026) \<noteq> Inl ValueError \<and>
   calculate_new_expiry ''2025-12'' (10 ^ 4300 - 2025) = Inl ValueError"
proof -
  let ?p = "EXP_PATTERNS ! 9" and ?f = "\<lparr>month = 12, original_month_text = None, year = 2025\<rparr>"
  have c: "classify ''2025-12'' = Some (?p, ?f)" by code_simp
  have w: "year_length ?p = 4" by code_simp
  have "\<not> (10::int) ^ max_str_digits \<le> \<bar>2025 + (10 ^ max_str_digits - (2025 + 1))\<bar>"
    by (rule offset_just_below_limit) simp_all
  then have small: "\<not> (10::int) ^ max_str_digits \<le> \<bar>2025 + (10 ^ max_str_digits - 2026)\<bar>"
    by simp
  have big: "(10::int) ^ max_str_digits \<le> \<bar>2025 + (10 ^ max_str_digits - 2025)\<bar>"
    by simp
  from raises_only_beyond_digit_limit [of "''2025-12''" "10 ^ max_str_digits - 2026" ValueError]
    c small
  have "calculate_new_expiry ''2025-12'' (10 ^ max_str_digits - 2026) \<noteq> Inl ValueError"
    by simp
  moreover
  from raises_only_beyond_digit_limit [of "''2025-12''" "10 ^ max_str_digits - 2025" ValueError]
    c w big
  have "calculate_new_expiry ''2025-12'' (10 ^ max_str_digits - 2025) = Inl ValueError"
    by simp
  ultimately have
    "calculate_new_expiry ''2025-12'' (10 ^ max_str_digits - 2026) \<noteq> Inl ValueError \<and>
     calculate_new_expiry ''2025-12'' (10 ^ max_str_digits - 2025) = Inl ValueError"
    by (rule conjI)
  then show ?thesis unfolding max_str_digits_def .
qed

text \<open>
  Claim C3. The rules are tried in the order of section 6, the four textual rules first;
  the first rule whose expression matches and whose month passes its check decides the
  result.
\<close>

theorem first_applicable_rule_wins:
  assumes "i < length EXP_PATTERNS"
    and "extract_fields (EXP_PATTERNS ! i) (py_strip s) = Some f"
    and "\<forall>j<i. extract_fields (EXP_PATTERNS ! j) (py_strip s) = None"
  shows "classify s = Some (EXP_PATTERNS ! i, f) \<and>
         calculate_new_expiry s k =
           (case format_expiry (EXP_PATTERNS ! i) f k of Inl e \<Rightarrow> Inl e | Inr r \<Rightarrow> Inr (Some r)) \<and>
         map rule_shape EXP_PATTERNS = section6_rules \<and>
         map regex EXP_PATTERNS = map section6_regex section6_rules \<and>
         map month_type EXP_PATTERNS = replicate 4 Text @ replicate 8 Numeric"
proof -
  from assms(1) have "EXP_PATTERNS ! i \<in> set EXP_PATTERNS" by simp
  with assms(2) have "py_strip s \<noteq> []"
    using extract_fields_Nil by fastforce
  with first_match_nth [OF assms] have "classify s = Some (EXP_PATTERNS ! i, f)"
    by (simp add: classify_def)
  then show ?thesis
    by (simp add: calculate_classify section6_order section6_grammar text_rules_first)
qed

theorem first_applicable_rule_wins_witness:
  "calculate_new_expiry ''  aug/2029 '' 3 = Inr (Some ''Aug/2032'') \<and>
   classify ''  aug/2029 '' =
     Some (EXP_PATTERNS ! 3, \<lparr>month = 8, original_month_text = Some ''aug'', year = 2029\<rparr>)"
proof -
  let ?f = "\<lparr>month = 8, original_month_text = Some ''aug'', year = 2029\<rparr>"
  have i: "(3::nat) < length EXP_PATTERNS" by (simp add: EXP_PATTERNS_def)
  have hit: "extract_fields (EXP_PATTERNS ! 3) (py_strip ''  aug/2029 '') = Some ?f"
    by code_simp
  have earlier: "extract_fields (EXP_PATTERNS ! 0) (py_strip ''  aug/2029 '') = None"
    "extract_fields (EXP_PATTERNS ! 1) (py_strip ''  aug/2029 '') = None"
    "extract_fields (EXP_PATTERNS ! 2) (py_strip ''  aug/2029 '') = None"
    by code_simp+
  have miss: "\<forall>j<3. extract_fields (EXP_PATTERNS ! j) (py_strip ''  aug/2029 '') = None"
  proof (intro allI impI)
    fix j :: nat
    assume "j < 3"
    then consider "j = 0" | "j = 1" | "j = 2" by linarith
    then show "extract_fields (EXP_PATTERNS ! j) (py_strip ''  aug/2029 '') = None"
      by cases (simp_all only: earlier)
  qed
  have "format_expiry (EXP_PATTERNS ! 3) ?f 3 = Inr ''Aug/2032''"
    by code_simp
  with first_applicable_rule_wins [OF i hit miss, of 3] show ?thesis
    by simp
qed

text \<open>
  Claim C6. A rule whose expression matches while its numeric month is outside 1 to 12
  is skipped, and the loop goes on with the next rule; \<^verbatim>\<open>13/25\<close> is no match.
\<close>

theorem month_out_of_range_skips_rule:
  assumes "month_type p = Numeric"
    and "re_match (regex p) s = Some g"
    and "map_of g ''month'' = Some ms"
    and "py_int ms = Inr m"
    and "m < 1 \<or> 12 < m"
  shows "extract_fields p s = None \<and>
         pattern_loop (p # ps) s k = pattern_loop ps s k \<and>
         calculate_new_expiry ''13/25'' k = Inr None"
proof -
  from assms have skip: "extract_fields p s = None"
    by (auto simp: extract_fields_def)
  have "classify ''13/25'' = None" by code_simp
  with skip show ?thesis by (simp add: calculate_classify)
qed

theorem month_out_of_range_skips_rule_witness:
  "re_match (regex (EXP_PATTERNS ! 4)) ''13/25'' = Some [(''month'', ''13''), (''year'', ''25'')] \<and>
   py_int ''13'' = Inr 13 \<and>
   extract_fields (EXP_PATTERNS ! 4) ''13/25'' = None \<and>
   pattern_loop (drop 4 EXP_PATTERNS) ''13/25'' 3 = pattern_loop (drop 5 EXP_PATTERNS) ''13/25'' 3 \<and>
   calculate_new_expiry ''13/25'' 3 = Inr None"
proof -
  have t: "month_type (EXP_PATTERNS ! 4) = Numeric" by code_simp
  have g: "re_match (regex (EXP_PATTERNS ! 4)) ''13/25'' = Some [(''month'', ''13''), (''year'', ''25'')]"
    by code_simp
  have ms: "map_of [(''month'', ''13''), (''year'', ''25'')] ''month'' = Some ''13''" by simp
  have m: "py_int ''13'' = Inr 13" by code_simp
  have d: "drop 4 EXP_PATTERNS = EXP_PATTERNS ! 4 # drop 5 EXP_PATTERNS"
    by (simp add: EXP_PATTERNS_def)
  from month_out_of_range_skips_rule [OF t g ms m, of "drop 5 EXP_PATTERNS" 3] g m d
  show ?thesis by simp
qed

text \<open>
  Claim C7. The empty string, a string of whitespace, a string that no rule accepts
  after trimming, and a string that starts with letters which are not a month name of the
  table all give \<^verbatim>\<open>None\<close>, and no exception.
\<close>

theorem unmatched_input_returns_None:
  assumes "s = [] \<or> py_strip s = [] \<or>
           (\<forall>p\<in>set EXP_PATTERNS. extract_fields p (py_strip s) = None) \<or>
           (takeWhile is_alpha (py_strip s) \<noteq> [] \<and>
            MONTH_MAP (py_lower (takeWhile is_alpha (py_strip s))) = None)"
  shows "calculate_new_expiry s k = Inr None"
proof -
  from assms have "py_strip s = [] \<or> (\<forall>p\<in>set EXP_PATTERNS. extract_fields p (py_strip s) = None)"
    using unknown_month_name by auto
  then have "classify s = None"
    by (auto simp: classify_def first_match_None)
  then show ?thesis by (simp add: calculate_classify)
qed

theorem unmatched_input_returns_None_witness:
  "calculate_new_expiry [] 3 = Inr None \<and>
   calculate_new_expiry ''   '' 3 = Inr None \<and>
   calculate_new_expiry ''Foo-29'' 3 = Inr None \<and>
   takeWhile is_alpha (py_strip ''Foo-29'') = ''Foo'' \<and> MONTH_MAP (py_lower ''Foo'') = None"
proof -
  have a: "py_strip ''   '' = []" by code_simp
  have b: "takeWhile is_alpha (py_strip ''Foo-29'') = ''Foo''" by code_simp
  have c: "MONTH_MAP (py_lower ''Foo'') = None" by code_simp
  from unmatched_input_returns_None [of "[]" 3]
    unmatched_input_returns_None [of "''   ''" 3]
    unmatched_input_returns_None [of "''Foo-29''" 3] a b c
  show ?thesis by simp
qed

text \<open>
  Claim C1. Under a rule with a two-digit year the year of the output is the year
  read from the input plus the offset, modulo 100, written with two digits;
  \<^verbatim>\<open>Dec-99\<close> with offset 3 gives \<^verbatim>\<open>Dec-02\<close>.
\<close>

theorem two_digit_year_wraps:
  assumes "classify s = Some (p, f)" and "year_length p = 2"
  shows "(\<exists>ms ys fm fy.
            py_strip s = assemble p ms ys \<and> length ys = 2 \<and> py_int ys = Inr (year f) \<and>
            formatted_month p f = Inr fm \<and>
            py_format_0d 2 ((year f + k) mod 100) = Inr fy \<and>
            calculate_new_expiry s k = Inr (Some (assemble p fm fy)) \<and>
            length fy = 2 \<and> list_all is_digit fy \<and>
            py_int fy = Inr ((year f + k) mod 100)) \<and>
         calculate_new_expiry ''Dec-99'' 3 = Inr (Some ''Dec-02'')"
proof -
  from classified_input_shape [OF assms(1)] obtain ms ys where
    "py_strip s = assemble p ms ys" "length ys = year_length p" "py_int ys = Inr (year f)"
    by (auto simp: reads_fields_def)
  moreover from calculate_of_classify [OF assms(1), of k] assms(2) obtain fm where
    "formatted_month p f = Inr fm"
    "calculate_new_expiry s k =
       Inr (Some (assemble p fm (format_0d_text 2 ((year f + k) mod 100))))"
    by (auto simp: formatted_year_2)
  moreover from formatted_year_2 [OF assms(2), of f k] assms(2)
  have "py_format_0d 2 ((year f + k) mod 100) = Inr (format_0d_text 2 ((year f + k) mod 100))"
    by (simp add: formatted_year_def Let_def)
  moreover have "calculate_new_expiry ''Dec-99'' 3 = Inr (Some ''Dec-02'')"
    by code_simp
  ultimately show ?thesis
    using assms(2) two_digits [of "year f + k"] by auto
qed

theorem two_digit_year_wraps_witness:
  "classify ''Dec-99'' =
     Some (EXP_PATTERNS ! 0, \<lparr>month = 12, original_month_text = Some ''Dec'', year = 99\<rparr>) \<and>
   year_length (EXP_PATTERNS ! 0) = 2 \<and>
   calculate_new_expiry ''Dec-99'' 3 = Inr (Some ''Dec-02'')"
proof -
  have c: "classify ''Dec-99'' =
     Some (EXP_PATTERNS ! 0, \<lparr>month = 12, original_month_text = Some ''Dec'', year = 99\<rparr>)"
    by code_simp
  have w: "year_length (EXP_PATTERNS ! 0) = 2" by code_simp
  from two_digit_year_wraps [OF c w, of 3] c w show ?thesis by simp
qed

text \<open>
  Claim C5, as stated, fails for an offset that takes the year past 4300 digits: the
  f-string raises \<open>ValueError\<close> and there is no output year.
\<close>

theorem four_digit_year_not_for_every_offset:
  "calculate_new_expiry ''August-2029'' (10 ^ 4300) = Inl ValueError"
proof -
  let ?p = "EXP_PATTERNS ! 1"
    and ?f = "\<lparr>month = 8, original_month_text = Some ''August'', year = 2029\<rparr>"
  have c: "classify ''August-2029'' = Some (?p, ?f)" by code_simp
  have w: "year_length ?p = 4" by code_simp
  have "(10::int) ^ max_str_digits \<le> \<bar>2029 + 10 ^ max_str_digits\<bar>"
    by (rule offset_beyond_limit) simp_all
  then have "10 ^ max_str_digits \<le> \<bar>year ?f + 10 ^ max_str_digits\<bar>" by simp
  with c w have "calculate_new_expiry ''August-2029'' (10 ^ max_str_digits) = Inl ValueError"
    by (rule huge_year_raises)
  then show ?thesis unfolding max_str_digits_def .
qed

text \<open>
  Claim C5, amended. Under a rule with a four-digit year, and for every offset that
  leaves the year plus the offset with at most 4300 decimal digits, the year of the
  output is the year read from the input plus the offset, not reduced, in the format
  \<^verbatim>\<open>04d\<close>: zero-padded to four digits, written in full when it has more, and for a
  negative result a minus sign followed by three zero-padded digits or more.
  \<^verbatim>\<open>August-2029\<close> with offset 3 gives \<^verbatim>\<open>August-2032\<close>.
\<close>

theorem four_digit_year_no_wraparound:
  assumes "classify s = Some (p, f)" and "year_length p = 4"
    and "\<bar>year f + k\<bar> < 10 ^ max_str_digits"
  shows "(\<exists>ms ys fm fy.
            py_strip s = assemble p ms ys \<and> length ys = 4 \<and> py_int ys = Inr (year f) \<and>
            formatted_month p f = Inr fm \<and>
            py_format_0d 4 (year f + k) = Inr fy \<and>
            calculate_new_expiry s k = Inr (Some (assemble p fm fy)) \<and>
            format_0d_of 4 (year f + k) fy \<and> 4 \<le> length fy) \<and>
         calculate_new_expiry ''August-2029'' 3 = Inr (Some ''August-2032'')"
proof -
  from classified_input_shape [OF assms(1)] obtain ms ys where
    "py_strip s = assemble p ms ys" "length ys = year_length p" "py_int ys = Inr (year f)"
    by (auto simp: reads_fields_def)
  moreover from assms(3)
  have fy: "py_format_0d 4 (year f + k) = Inr (format_0d_text 4 (year f + k))"
    by (simp add: py_format_0d_cases)
  moreover from calculate_of_classify [OF assms(1), of k] assms(2) fy obtain fm where
    "formatted_month p f = Inr fm"
    "calculate_new_expiry s k = Inr (Some (assemble p fm (format_0d_text 4 (year f + k))))"
    by (auto simp: formatted_year_4)
  moreover have "format_0d_of 4 (year f + k) (format_0d_text 4 (year f + k))"
    by (rule format_0d_of_format) simp
  moreover have "calculate_new_expiry ''August-2029'' 3 = Inr (Some ''August-2032'')"
    by code_simp
  ultimately show ?thesis
    using assms(2) length_format_0d_text_ge [of 4 "year f + k"] by auto
qed

theorem four_digit_year_no_wraparound_witness:
  "classify ''012029'' =
     Some (EXP_PATTERNS ! 11, \<lparr>month = 1, original_month_text = None, year = 2029\<rparr>) \<and>
   year_length (EXP_PATTERNS ! 11) = 4 \<and>
   calculate_new_expiry ''012029'' 3 = Inr (Some ''012032'') \<and>
   calculate_new_expiry ''012029'' (- 3000) = Inr (Some ''01-971'')"
proof -
  let ?p = "EXP_PATTERNS ! 11" and ?f = "\<lparr>month = 1, original_month_text = None, year = 2029\<rparr>"
  have c: "classify ''012029'' = Some (?p, ?f)" by code_simp
  have w: "year_length ?p = 4" by code_simp
  have fm: "formatted_month ?p ?f = Inr ''01''" by code_simp
  have up: "py_format_0d 4 (year ?f + 3) = Inr ''2032''" by (simp add: format_eval)
  have down: "py_format_0d 4 (year ?f + (- 3000)) = Inr ''-971''" by (simp add: format_eval)
  have a: "assemble ?p ''01'' ''2032'' = ''012032''" "assemble ?p ''01'' ''-971'' = ''01-971''"
    by code_simp+
  have "\<bar>year ?f + 3\<bar> < 10000" by simp
  then have l1: "\<bar>year ?f + 3\<bar> < 10 ^ max_str_digits" by (rule small_below_limit)
  have "\<bar>year ?f + (- 3000)\<bar> < 10000" by simp
  then have l2: "\<bar>year ?f + (- 3000)\<bar> < 10 ^ max_str_digits" by (rule small_below_limit)
  from four_digit_year_no_wraparound [OF c w l1] fm up a
  have "calculate_new_expiry ''012029'' 3 = Inr (Some ''012032'')" by auto
  moreover from four_digit_year_no_wraparound [OF c w l2] fm down a
  have "calculate_new_expiry ''012029'' (- 3000) = Inr (Some ''01-971'')" by auto
  ultimately show ?thesis using c w by simp
qed

text \<open>
  Claim C9, as stated, fails: a negative offset that takes a four-digit year past 4300
  digits gives no output string, the f-string raises \<open>ValueError\<close>.
\<close>

theorem huge_negative_offset_raises:
  "calculate_new_expiry ''2029-07'' (- 2029 - 10 ^ 4300) = Inl ValueError"
proof -
  let ?p = "EXP_PATTERNS ! 9" and ?f = "\<lparr>month = 7, original_month_text = None, year = 2029\<rparr>"
  have c: "classify ''2029-07'' = Some (?p, ?f)" by code_simp
  have w: "year_length ?p = 4" by code_simp
  have "(10::int) ^ max_str_digits \<le> \<bar>2029 + (- 2029 - 10 ^ max_str_digits)\<bar>"
    by (rule offset_below_limit)
  then have "10 ^ max_str_digits \<le> \<bar>year ?f + (- 2029 - 10 ^ max_str_digits)\<bar>" by simp
  with c w have
    "calculate_new_expiry ''2029-07'' (- 2029 - 10 ^ max_str_digits) = Inl ValueError"
    by (rule huge_year_raises)
  then show ?thesis unfolding max_str_digits_def .
qed

text \<open>
  Claim C9, amended. The function has no check of the offset, and zero and negative
  offsets are computed like positive ones: whenever the input is classified and, under
  a rule with a four-digit year, the year plus the offset has at most 4300 decimal
  digits, it returns a string whose year is the year read plus the offset under the
  width handling of the rule (modulo 100 in two digits, or the format \<^verbatim>\<open>04d\<close> with
  its minus sign for a negative result).
\<close>

theorem every_offset_accepted:
  assumes "classify s = Some (p, f)"
    and "year_length p = 4 \<longrightarrow> \<bar>year f + k\<bar> < 10 ^ max_str_digits"
  shows "\<exists>fm fy. formatted_month p f = Inr fm \<and> formatted_year p f k = Inr fy \<and>
           calculate_new_expiry s k = Inr (Some (assemble p fm fy)) \<and>
           (if year_length p = 2
            then py_format_0d 2 ((year f + k) mod 100) = Inr fy \<and>
                 zero_padded 2 ((year f + k) mod 100) fy
            else py_format_0d 4 (year f + k) = Inr fy \<and>
                 format_0d_of 4 (year f + k) fy)"
proof -
  from classify_Some [OF assms(1)] have "p \<in> set EXP_PATTERNS" by simp
  then have yl: "year_length p = 2 \<or> year_length p = 4" by (rule pattern_facts(1))
  from calculate_of_classify [OF assms(1), of k] obtain fm where
    fm: "formatted_month p f = Inr fm"
    and out: "calculate_new_expiry s k =
       (case formatted_year p f k of Inl e \<Rightarrow> Inl e | Inr fy \<Rightarrow> Inr (Some (assemble p fm fy)))"
    by blast
  show ?thesis
  proof (cases "year_length p = 2")
    case True
    let ?t = "format_0d_text 2 ((year f + k) mod 100)"
    have "zero_padded 2 ((year f + k) mod 100) ?t"
      by (rule zero_padded_format) simp_all
    with True fm out formatted_year_2 [OF True, of f k] show ?thesis
      by (auto simp: formatted_year_def Let_def)
  next
    case False
    with yl have four: "year_length p = 4" by simp
    let ?t = "format_0d_text 4 (year f + k)"
    from four assms(2) have fy: "py_format_0d 4 (year f + k) = Inr ?t"
      by (simp add: py_format_0d_cases)
    have "format_0d_of 4 (year f + k) ?t"
      by (rule format_0d_of_format) simp
    with four fm out fy show ?thesis
      by (auto simp: formatted_year_4)
  qed
qed

theorem every_offset_accepted_witness:
  "classify ''2029/7'' =
     Some (EXP_PATTERNS ! 8, \<lparr>month = 7, original_month_text = None, year = 2029\<rparr>) \<and>
   calculate_new_expiry ''2029/7'' (- 3000) = Inr (Some ''-971/07'') \<and>
   calculate_new_expiry ''2029/7'' 0 = Inr (Some ''2029/07'')"
proof -
  let ?p = "EXP_PATTERNS ! 8" and ?f = "\<lparr>month = 7, original_month_text = None, year = 2029\<rparr>"
  have c: "classify ''2029/7'' = Some (?p, ?f)" by code_simp
  have w: "year_length ?p = 4" by code_simp
  have fm: "formatted_month ?p ?f = Inr ''07''" by code_simp
  have zero: "formatted_year ?p ?f 0 = Inr ''2029''" using w by (simp add: format_eval)
  have down: "formatted_year ?p ?f (- 3000) = Inr ''-971''" using w by (simp add: format_eval)
  have a: "assemble ?p ''07'' ''2029'' = ''2029/07''" "assemble ?p ''07'' ''-971'' = ''-971/07''"
    by code_simp+
  have "\<bar>year ?f + 0\<bar> < 10000" by simp
  then have "\<bar>year ?f + 0\<bar> < 10 ^ max_str_digits" by (rule small_below_limit)
  then have l1: "year_length ?p = 4 \<longrightarrow> \<bar>year ?f + 0\<bar> < 10 ^ max_str_digits" by (rule impI)
  have "\<bar>year ?f + (- 3000)\<bar> < 10000" by simp
  then have "\<bar>year ?f + (- 3000)\<bar> < 10 ^ max_str_digits" by (rule small_below_limit)
  then have l2: "year_length ?p = 4 \<longrightarrow> \<bar>year ?f + (- 3000)\<bar> < 10 ^ max_str_digits"
    by (rule impI)
  from every_offset_accepted [OF c l1] fm zero a
  have "calculate_new_expiry ''2029/7'' 0 = Inr (Some ''2029/07'')" by auto
  moreover from every_offset_accepted [OF c l2] fm down a
  have "calculate_new_expiry ''2029/7'' (- 3000) = Inr (Some ''-971/07'')" by auto
  ultimately show ?thesis using c by simp
qed

text \<open>
  Claim C4. The month of the input is kept: a numeric month is written again with two
  digits, a textual month with its first letter in upper case and the others in lower
  case, whatever the case of the input, and every string the function returns holds the
  month in that form. \<^verbatim>\<open>AUGUST/29\<close> gives a string that starts with \<^verbatim>\<open>August/\<close>, and
  \<^verbatim>\<open>Aug-29\<close> with offset 3 gives \<^verbatim>\<open>Aug-32\<close>.
\<close>

theorem month_kept_and_rendered_again:
  assumes "classify s = Some (p, f)"
  shows "(\<exists>ms ys fm.
            py_strip s = assemble p ms ys \<and> reads_fields p f ms ys \<and>
            formatted_month p f = Inr fm \<and>
            calculate_new_expiry s k =
              (case formatted_year p f k of
                 Inl e \<Rightarrow> Inl e
               | Inr fy \<Rightarrow> Inr (Some (assemble p fm fy))) \<and>
            ((year_length p = 4 \<longrightarrow> \<bar>year f + k\<bar> < 10 ^ max_str_digits) \<longrightarrow>
               (\<exists>fy. formatted_year p f k = Inr fy)) \<and>
            (case month_type p of
               Numeric \<Rightarrow> py_format_0d 2 (month f) = Inr fm \<and> length fm = 2 \<and>
                          list_all is_digit fm \<and> py_int fm = py_int ms
             | Text \<Rightarrow> fm = upper_char (hd ms) # py_lower (tl ms) \<and> is_upper (hd fm) \<and>
                       list_all is_lower (tl fm) \<and> py_lower fm = py_lower ms \<and>
                       MONTH_MAP (py_lower fm) = MONTH_MAP (py_lower ms))) \<and>
         calculate_new_expiry ''AUGUST/29'' 3 = Inr (Some ''August/32'') \<and>
         calculate_new_expiry ''Aug-29'' 3 = Inr (Some ''Aug-32'')"
proof -
  from classify_Some [OF assms] have "p \<in> set EXP_PATTERNS" by simp
  then have yl: "year_length p = 2 \<or> year_length p = 4" by (rule pattern_facts(1))
  from classified_input_shape [OF assms] obtain ms ys where
    s: "py_strip s = assemble p ms ys" and r: "reads_fields p f ms ys"
    by blast
  from calculate_of_classify [OF assms, of k] obtain fm where
    fm: "formatted_month p f = Inr fm"
    and out: "calculate_new_expiry s k =
       (case formatted_year p f k of Inl e \<Rightarrow> Inl e | Inr fy \<Rightarrow> Inr (Some (assemble p fm fy)))"
    by blast
  have ok: "(year_length p = 4 \<longrightarrow> \<bar>year f + k\<bar> < 10 ^ max_str_digits) \<longrightarrow>
               (\<exists>fy. formatted_year p f k = Inr fy)"
    by (auto simp: formatted_year_cases [OF yl])
  have "case month_type p of
               Numeric \<Rightarrow> py_format_0d 2 (month f) = Inr fm \<and> length fm = 2 \<and>
                          list_all is_digit fm \<and> py_int fm = py_int ms
             | Text \<Rightarrow> fm = upper_char (hd ms) # py_lower (tl ms) \<and> is_upper (hd fm) \<and>
                       list_all is_lower (tl fm) \<and> py_lower fm = py_lower ms \<and>
                       MONTH_MAP (py_lower fm) = MONTH_MAP (py_lower ms)"
  proof (cases "month_type p")
    case Text
    with r have "original_month_text f = Some ms" "ms \<noteq> []" "list_all is_alpha ms"
      by (simp_all add: reads_fields_def)
    from formatted_month_text [OF Text this] fm Text show ?thesis by simp
  next
    case Numeric
    with r have m: "1 \<le> month f" "month f \<le> 12" and ms: "py_int ms = Inr (month f)"
      by (simp_all add: reads_fields_def)
    from formatted_month_numeric [OF Numeric m] fm ms Numeric show ?thesis
      by (simp add: formatted_month_def)
  qed
  moreover have "calculate_new_expiry ''AUGUST/29'' 3 = Inr (Some ''August/32'')"
    by code_simp
  moreover have "calculate_new_expiry ''Aug-29'' 3 = Inr (Some ''Aug-32'')"
    by code_simp
  ultimately show ?thesis using s r fm out ok by blast
qed

theorem month_kept_and_rendered_again_witness:
  "classify ''AUGUST/29'' =
     Some (EXP_PATTERNS ! 2, \<lparr>month = 8, original_month_text = Some ''AUGUST'', year = 29\<rparr>) \<and>
   calculate_new_expiry ''AUGUST/29'' 3 = Inr (Some ''August/32'') \<and>
   calculate_new_expiry ''Aug-29'' 3 = Inr (Some ''Aug-32'')"
proof -
  have c: "classify ''AUGUST/29'' =
     Some (EXP_PATTERNS ! 2, \<lparr>month = 8, original_month_text = Some ''AUGUST'', year = 29\<rparr>)"
    by code_simp
  from month_kept_and_rendered_again [OF c, of 3] c show ?thesis by simp
qed

text \<open>
  Claim C8, as stated, fails: a four-digit year that leaves the range 0 to 9999 is
  written with five characters, and no rule accepts the output.
\<close>

theorem output_not_always_accepted_again:
  "calculate_new_expiry ''12/9999'' 3 = Inr (Some ''12/10002'') \<and>
   calculate_new_expiry ''12/10002'' 0 = Inr None \<and>
   calculate_new_expiry ''12/10002'' 0 \<noteq> Inr (Some ''12/10002'')"
proof -
  let ?p = "EXP_PATTERNS ! 6" and ?f = "\<lparr>month = 12, original_month_text = None, year = 9999\<rparr>"
  have c: "classify ''12/9999'' = Some (?p, ?f)" by code_simp
  have fm: "formatted_month ?p ?f = Inr ''12''" by code_simp
  have w: "year_length ?p = 4" by code_simp
  have fy: "formatted_year ?p ?f 3 = Inr ''10002''" using w by (simp add: format_eval)
  have a: "assemble ?p ''12'' ''10002'' = ''12/10002''" by code_simp
  have "classify ''12/10002'' = None" by code_simp
  then have "calculate_new_expiry ''12/10002'' 0 = Inr None"
    by (simp add: calculate_classify)
  with calculate_eval [OF c fm fy a] show ?thesis by simp
qed

text \<open>
  Claim C8, amended. When the new year fits the year width of the rule (always under a
  two-digit rule, from 0 to 9999 under a four-digit rule), the function applied to its
  own output with offset 0 returns that output, character for character.
\<close>

theorem output_is_fixed_point_when_year_fits:
  assumes "classify x = Some (p, f)"
    and "year_length p = 4 \<longrightarrow> 0 \<le> year f + k \<and> year f + k \<le> 9999"
    and "calculate_new_expiry x k = Inr (Some y)"
  shows "calculate_new_expiry y 0 = Inr (Some y)"
proof -
  from assms(1,2) obtain fm fy where
    "calculate_new_expiry x k = Inr (Some (assemble p fm fy))"
    "calculate_new_expiry (assemble p fm fy) 0 = Inr (Some (assemble p fm fy))"
    by (rule classified_output)
  with assms(3) show ?thesis by simp
qed

theorem output_is_fixed_point_when_year_fits_witness:
  "classify '' 7-2029'' =
     Some (EXP_PATTERNS ! 7, \<lparr>month = 7, original_month_text = None, year = 2029\<rparr>) \<and>
   year_length (EXP_PATTERNS ! 7) = 4 \<and> (0::int) \<le> 2029 + 3 \<and> (2029::int) + 3 \<le> 9999 \<and>
   calculate_new_expiry '' 7-2029'' 3 = Inr (Some ''07-2032'') \<and>
   calculate_new_expiry ''07-2032'' 0 = Inr (Some ''07-2032'')"
proof -
  let ?f = "\<lparr>month = 7, original_month_text = None, year = 2029\<rparr>"
  have c: "classify '' 7-2029'' = Some (EXP_PATTERNS ! 7, ?f)" by code_simp
  have w: "year_length (EXP_PATTERNS ! 7) = 4" by code_simp
  have fits: "year_length (EXP_PATTERNS ! 7) = 4 \<longrightarrow> 0 \<le> year ?f + 3 \<and> year ?f + 3 \<le> 9999"
    by simp
  have out: "calculate_new_expiry '' 7-2029'' 3 = Inr (Some ''07-2032'')" by code_simp
  from output_is_fixed_point_when_year_fits [OF c fits out] c w out show ?thesis by simp
qed

text \<open>
  Claim C2, as stated, fails: the month is written again in one fixed form, so an
  input in capitals or with a one-digit month differs from its output in the month too,
  and a four-digit year that passes 9999 gets a fifth digit.
\<close>

theorem output_does_not_mirror_input:
  "classify ''AUGUST/29'' =
     Some (EXP_PATTERNS ! 2, \<lparr>month = 8, original_month_text = Some ''AUGUST'', year = 29\<rparr>) \<and>
   calculate_new_expiry ''AUGUST/29'' 3 = Inr (Some ''August/32'') \<and>
   \<not> mirrors_input (EXP_PATTERNS ! 2) (py_strip ''AUGUST/29'') ''August/32'' \<and>
   classify ''1/25'' =
     Some (EXP_PATTERNS ! 4, \<lparr>month = 1, original_month_text = None, year = 25\<rparr>) \<and>
   calculate_new_expiry ''1/25'' 3 = Inr (Some ''01/28'') \<and>
   \<not> mirrors_input (EXP_PATTERNS ! 4) (py_strip ''1/25'') ''01/28'' \<and>
   classify ''Dec-9999'' =
     Some (EXP_PATTERNS ! 1, \<lparr>month = 12, original_month_text = Some ''Dec'', year = 9999\<rparr>) \<and>
   calculate_new_expiry ''Dec-9999'' 1 = Inr (Some ''Dec-10000'') \<and>
   \<not> mirrors_input (EXP_PATTERNS ! 1) (py_strip ''Dec-9999'') ''Dec-10000''"
proof -
  have a1: "classify ''AUGUST/29'' =
     Some (EXP_PATTERNS ! 2, \<lparr>month = 8, original_month_text = Some ''AUGUST'', year = 29\<rparr>)"
    by code_simp
  have a2: "calculate_new_expiry ''AUGUST/29'' 3 = Inr (Some ''August/32'')" by code_simp
  have a3: "\<not> mirrors_input (EXP_PATTERNS ! 2) (py_strip ''AUGUST/29'') ''August/32''"
    by code_simp
  have b1: "classify ''1/25'' =
     Some (EXP_PATTERNS ! 4, \<lparr>month = 1, original_month_text = None, year = 25\<rparr>)"
    by code_simp
  have b2: "calculate_new_expiry ''1/25'' 3 = Inr (Some ''01/28'')" by code_simp
  have b3: "\<not> mirrors_input (EXP_PATTERNS ! 4) (py_strip ''1/25'') ''01/28''" by code_simp
  let ?p = "EXP_PATTERNS ! 1"
    and ?f = "\<lparr>month = 12, original_month_text = Some ''Dec'', year = 9999\<rparr>"
  have c1: "classify ''Dec-9999'' = Some (?p, ?f)" by code_simp
  have fm: "formatted_month ?p ?f = Inr ''Dec''" by code_simp
  have w: "year_length ?p = 4" by code_simp
  have fy: "formatted_year ?p ?f 1 = Inr ''10000''" using w by (simp add: format_eval)
  have a: "assemble ?p ''Dec'' ''10000'' = ''Dec-10000''" by code_simp
  note c2 = calculate_eval [OF c1 fm fy a]
  have c3: "\<not> mirrors_input ?p (py_strip ''Dec-9999'') ''Dec-10000''" by code_simp
  from a1 a2 a3 b1 b2 b3 c1 c2 c3 show ?thesis by blast
qed

text \<open>
  Claim C2, amended. When the new year fits the year width of the rule, the output has
  the separator, the field order and the number of year digits of the rule that matched,
  and the same month in the same representation, written in its fixed form (two digits,
  or first letter upper and the rest lower): the same rule reads the output, with the
  same month and the new year. An input whose month is already in that form differs
  from its output in the year only.
\<close>

theorem output_keeps_rule_shape:
  assumes "classify s = Some (p, f)"
    and "year_length p = 4 \<longrightarrow> 0 \<le> year f + k \<and> year f + k \<le> 9999"
  shows "\<exists>ms ys fm fy.
           py_strip s = assemble p ms ys \<and> reads_fields p f ms ys \<and>
           formatted_month p f = Inr fm \<and> formatted_year p f k = Inr fy \<and>
           calculate_new_expiry s k = Inr (Some (assemble p fm fy)) \<and>
           length fy = length ys \<and>
           reads_fields p (output_fields p f k fm) fm fy \<and>
           classify (assemble p fm fy) = Some (p, output_fields p f k fm) \<and>
           (fm = ms \<longrightarrow> mirrors_input p (py_strip s) (assemble p fm fy))"
proof -
  from assms obtain ms ys fm fy where
    s: "py_strip s = assemble p ms ys" and r: "reads_fields p f ms ys"
    and fm: "formatted_month p f = Inr fm" and fy: "formatted_year p f k = Inr fy"
    and out: "calculate_new_expiry s k = Inr (Some (assemble p fm fy))"
    and r': "reads_fields p (output_fields p f k fm) fm fy"
    and two: "separator p = [] \<longrightarrow> length fm = 2"
    and c': "classify (assemble p fm fy) = Some (p, output_fields p f k fm)"
    by (rule classified_output)
  from classify_Some [OF assms(1)] have p: "p \<in> set EXP_PATTERNS" by simp
  from r r' have len: "length fy = length ys"
    by (simp add: reads_fields_def)
  have "mirrors_input p (py_strip s) (assemble p fm fy)" if "fm = ms"
  proof -
    from that two have two': "separator p = [] \<longrightarrow> length ms = 2" by simp
    from own_rule_groups [OF p r two'] own_rule_groups [OF p r' two] s that
    show ?thesis by (auto simp: mirrors_input_def)
  qed
  with s r fm fy out len r' c' show ?thesis by blast
qed

theorem output_keeps_rule_shape_witness:
  "classify ''2029/07'' =
     Some (EXP_PATTERNS ! 8, \<lparr>month = 7, original_month_text = None, year = 2029\<rparr>) \<and>
   year_length (EXP_PATTERNS ! 8) = 4 \<and> (0::int) \<le> 2029 + 3 \<and> (2029::int) + 3 \<le> 9999 \<and>
   calculate_new_expiry ''2029/07'' 3 = Inr (Some ''2032/07'') \<and>
   mirrors_input (EXP_PATTERNS ! 8) (py_strip ''2029/07'') ''2032/07''"
proof -
  let ?p = "EXP_PATTERNS ! 8" and ?f = "\<lparr>month = 7, original_month_text = None, year = 2029\<rparr>"
  have c: "classify ''2029/07'' = Some (?p, ?f)" by code_simp
  have w: "year_length ?p = 4" by code_simp
  have fits: "year_length ?p = 4 \<longrightarrow> 0 \<le> year ?f + 3 \<and> year ?f + 3 \<le> 9999" by simp
  have fm: "formatted_month ?p ?f = Inr ''07''" by code_simp
  have fy: "formatted_year ?p ?f 3 = Inr ''2032''" using w by (simp add: format_eval)
  have a: "assemble ?p ''07'' ''2032'' = ''2032/07''" by code_simp
  have m: "mirrors_input ?p (py_strip ''2029/07'') ''2032/07''" by code_simp
  from output_keeps_rule_shape [OF c fits] obtain fm' fy' where
    "formatted_month ?p ?f = Inr fm'" "formatted_year ?p ?f 3 = Inr fy'"
    "calculate_new_expiry ''2029/07'' 3 = Inr (Some (assemble ?p fm' fy'))"
    by blast
  with fm fy a have "calculate_new_expiry ''2029/07'' 3 = Inr (Some ''2032/07'')"
    by simp
  with c w m show ?thesis by simp
qed

end
